theory Spec2Isabelle
  imports Main "HOL-Library.Sublist" "HOL-Library.AList" "HOL-Library.Code_Target_Nat"
begin

text \<open>
  A model of the browser agent: the risk assessor (\<open>SecurityLayer\<close>), the tab registry
  (\<open>BrowserManager\<close>) and the agent itself (\<open>BrowserAgent\<close>: confirmation gate, tool
  dispatcher, plan tracker and execution loop). Functions that throw return an
  \<open>outcome\<close>; methods that write fields of an object take the object and return it
  updated; what the language model, the user and the browser do is an argument.
\<close>

section \<open>JavaScript strings\<close>

text \<open>
  A JavaScript string is a sequence of UTF-16 code units. The keyword dictionary holds
  Cyrillic and accented Latin words, so strings are lists of code units and not byte
  strings; \<open>asc\<close> embeds an ASCII literal.
\<close>

type_synonym jsstring = "nat list"

definition asc :: "string \<Rightarrow> jsstring" where
  "asc s = map of_char s"

text \<open>\<^verbatim>\<open>String.prototype.includes\<close>: the argument occurs as a contiguous run of code units.\<close>

fun str_includes :: "jsstring \<Rightarrow> jsstring \<Rightarrow> bool" where
  "str_includes [] k = (k = [])"
| "str_includes (c # cs) k = (prefix k (c # cs) \<or> str_includes cs k)"

text \<open>Conversion of a non-negative integer to its decimal digits, as a template literal prints it.\<close>

fun decimal :: "nat \<Rightarrow> jsstring" where
  "decimal n = (if n < 10 then [48 + n] else decimal (n div 10) @ [48 + n mod 10])"

declare decimal.simps [simp del]

definition show_int :: "int \<Rightarrow> jsstring" where
  "show_int i = (if i < 0 then asc ''-'' @ decimal (nat (- i)) else decimal (nat i))"

text \<open>
  \<^verbatim>\<open>String.prototype.toLowerCase\<close> follows the Unicode case tables of the runtime. The
  model takes it as a parameter \<open>lc\<close> of every function that calls it, so that the
  theorems hold whatever the tables are. \<open>ascii_lower\<close> is its value on strings whose
  only cased code units are ASCII letters; the concrete evaluations use it.
\<close>

definition ascii_lower_unit :: "nat \<Rightarrow> nat" where
  "ascii_lower_unit c = (if 65 \<le> c \<and> c \<le> 90 then c + 32 else c)"

definition ascii_lower :: "jsstring \<Rightarrow> jsstring" where
  "ascii_lower s = map ascii_lower_unit s"

text \<open>
  \<^verbatim>\<open>/word/i.test(s)\<close> for a pattern of lower-case ASCII letters, without the unicode
  flag: case-insensitive matching canonicalises a code unit through its upper-case form
  and never maps a non-ASCII unit to an ASCII one, so the pattern matches exactly when
  the ASCII-lowered string includes it.
\<close>

definition regex_test_i :: "jsstring \<Rightarrow> jsstring \<Rightarrow> bool" where
  "regex_test_i pattern_source s = str_includes (ascii_lower s) pattern_source"

subsection \<open>JSON.stringify on a string-valued object\<close>

definition hex_digit :: "nat \<Rightarrow> nat" where
  "hex_digit d = (if d < 10 then 48 + d else 87 + d)"

definition unicode_escape :: "nat \<Rightarrow> jsstring" where
  "unicode_escape c =
     [92, 117] @ [hex_digit (c div 4096 mod 16), hex_digit (c div 256 mod 16),
                    hex_digit (c div 16 mod 16), hex_digit (c mod 16)]"

definition is_high_surrogate :: "nat \<Rightarrow> bool" where
  "is_high_surrogate c = (55296 \<le> c \<and> c \<le> 56319)"

definition is_low_surrogate :: "nat \<Rightarrow> bool" where
  "is_low_surrogate c = (56320 \<le> c \<and> c \<le> 57343)"

text \<open>The body of a quoted JSON string: short escapes, control characters and lone surrogates.\<close>

fun quote_units :: "jsstring \<Rightarrow> jsstring" where
  "quote_units [] = []"
| "quote_units [c] =
     (if c = 8 then [92, 98] else if c = 9 then [92, 116]
      else if c = 10 then [92, 110] else if c = 12 then [92, 102]
      else if c = 13 then [92, 114] else if c = 34 then [92, 34]
      else if c = 92 then [92, 92]
      else if c < 32 \<or> is_high_surrogate c \<or> is_low_surrogate c then unicode_escape c
      else [c])"
| "quote_units (c # d # ds) =
     (if is_high_surrogate c \<and> is_low_surrogate d then c # d # quote_units ds
      else quote_units [c] @ quote_units (d # ds))"

definition json_quote :: "jsstring \<Rightarrow> jsstring" where
  "json_quote s = [34] @ quote_units s @ [34]"

fun join_with :: "jsstring \<Rightarrow> jsstring list \<Rightarrow> jsstring" where
  "join_with sep [] = []"
| "join_with sep [x] = x"
| "join_with sep (x # y # ys) = x @ sep @ join_with sep (y # ys)"

text \<open>
  An attribute object \<^verbatim>\<open>Record<string, string>\<close> is the list of its properties in
  enumeration order.
\<close>

type_synonym attributes = "(jsstring \<times> jsstring) list"

definition JSON_stringify :: "attributes \<Rightarrow> jsstring" where
  "JSON_stringify attrs =
     asc ''{'' @ join_with (asc '','') (map (\<lambda>(k, v). json_quote k @ asc '':'' @ json_quote v) attrs)
     @ asc ''}''"

section \<open>Security types and constants\<close>

datatype risk_level = Low | Medium | High | Critical

datatype category = Financial | DataLoss | Privacy | Account | ContentModification

fun category_name :: "category \<Rightarrow> jsstring" where
  "category_name Financial = asc ''financial''"
| "category_name DataLoss = asc ''data_loss''"
| "category_name Privacy = asc ''privacy''"
| "category_name Account = asc ''account''"
| "category_name ContentModification = asc ''content_modification''"

record action_context =
  action :: jsstring
  elementText :: "jsstring option"
  elementAttributes :: "attributes option"
  pageUrl :: "jsstring option"
  semanticContext :: "jsstring option"

record assessment =
  isDestructive :: bool
  riskLevel :: risk_level
  reason :: jsstring
  category :: "category option"

text \<open>The dictionary, its categories and languages in declaration order.\<close>

definition DESTRUCTIVE_KEYWORDS :: "(category \<times> (jsstring \<times> jsstring list) list) list" where
  "DESTRUCTIVE_KEYWORDS =
  [(Financial,
    [(asc ''en'',
      [asc ''buy'', asc ''purchase'', asc ''pay'', asc ''checkout'', asc ''order'',
       asc ''payment'', asc ''billing'', asc ''card'', asc ''subscribe'', asc ''donate'']),
     (asc ''ru'',
      [[1082, 1091, 1087, 1080, 1090, 1100],
       [1086, 1087, 1083, 1072, 1090, 1080, 1090, 1100],
       [1087, 1083, 1072, 1090, 1080, 1090, 1100],
       [1086, 1092, 1086, 1088, 1084, 1080, 1090, 1100],
       [1079, 1072, 1082, 1072, 1079],
       [1087, 1083, 1072, 1090, 1077, 1078],
       [1087, 1086, 1076, 1087, 1080, 1089, 1082, 1072],
       [1076, 1086, 1085, 1072, 1090]]),
     (asc ''es'', [asc ''comprar'', asc ''pagar'', asc ''pedido'', asc ''pago'']),
     (asc ''de'', [asc ''kaufen'', asc ''bezahlen'', asc ''bestellen'', asc ''zahlung'']),
     (asc ''fr'', [asc ''acheter'', asc ''payer'', asc ''commande'', asc ''paiement''])]),
   (DataLoss,
    [(asc ''en'',
      [asc ''delete'', asc ''remove'', asc ''clear'', asc ''erase'', asc ''cancel'',
       asc ''unsubscribe'', asc ''deactivate'', asc ''close account'']),
     (asc ''ru'',
      [[1091, 1076, 1072, 1083, 1080, 1090, 1100],
       [1086, 1095, 1080, 1089, 1090, 1080, 1090, 1100],
       [1089, 1090, 1077, 1088, 1077, 1090, 1100],
       [1086, 1090, 1084, 1077, 1085, 1080, 1090, 1100],
       [1086, 1090, 1087, 1080, 1089, 1072, 1090, 1100, 1089, 1103],
       [1076, 1077, 1072, 1082, 1090, 1080, 1074, 1080, 1088, 1086, 1074, 1072, 1090, 1100],
       [1079, 1072, 1082, 1088, 1099, 1090, 1100]]),
     (asc ''es'', [asc ''eliminar'', asc ''borrar'', asc ''cancelar'']),
     (asc ''de'', [[108, 246, 115, 99, 104, 101, 110], asc ''entfernen'', asc ''abbrechen'']),
     (asc ''fr'', [asc ''supprimer'', asc ''effacer'', asc ''annuler''])]),
   (ContentModification,
    [(asc ''en'',
      [asc ''send'', asc ''post'', asc ''publish'', asc ''submit'', asc ''upload'',
       asc ''share'', asc ''create'', asc ''edit'']),
     (asc ''ru'',
      [[1086, 1090, 1087, 1088, 1072, 1074, 1080, 1090, 1100],
       [1086, 1087, 1091, 1073, 1083, 1080, 1082, 1086, 1074, 1072, 1090, 1100],
       [1088, 1072, 1079, 1084, 1077, 1089, 1090, 1080, 1090, 1100],
       [1079, 1072, 1075, 1088, 1091, 1079, 1080, 1090, 1100],
       [1087, 1086, 1076, 1077, 1083, 1080, 1090, 1100, 1089, 1103],
       [1089, 1086, 1079, 1076, 1072, 1090, 1100],
       [1088, 1077, 1076, 1072, 1082, 1090, 1080, 1088, 1086, 1074, 1072, 1090, 1100]]),
     (asc ''es'', [asc ''enviar'', asc ''publicar'', asc ''compartir'']),
     (asc ''de'',
      [asc ''senden'',
       [118, 101, 114, 246, 102, 102, 101, 110, 116, 108, 105, 99, 104, 101, 110],
       asc ''teilen'']),
     (asc ''fr'', [asc ''envoyer'', asc ''publier'', asc ''partager''])]),
   (Account,
    [(asc ''en'',
      [asc ''logout'', asc ''log out'', asc ''sign out'', asc ''change password'',
       asc ''reset'', asc ''verify'']),
     (asc ''ru'',
      [[1074, 1099, 1081, 1090, 1080],
       [1074, 1099, 1093, 1086, 1076],
       [1089, 1084, 1077, 1085, 1080, 1090, 1100, 32, 1087, 1072, 1088, 1086, 1083, 1100],
       [1089, 1073, 1088, 1086, 1089, 1080, 1090, 1100]]),
     (asc ''es'',
      [[99, 101, 114, 114, 97, 114, 32, 115, 101, 115, 105, 243, 110], asc ''salir'']),
     (asc ''de'', [asc ''abmelden'', asc ''ausloggen'']),
     (asc ''fr'',
      [[100, 233, 99, 111, 110, 110, 101, 120, 105, 111, 110],
       [115, 101, 32, 100, 233, 99, 111, 110, 110, 101, 99, 116, 101, 114]])])]"

definition SENSITIVE_URL_PATTERNS :: "jsstring list" where
  "SENSITIVE_URL_PATTERNS =
     [asc ''checkout'', asc ''payment'', asc ''cart'', asc ''order'', asc ''billing'',
      asc ''delete'', asc ''remove'', asc ''settings'', asc ''account'', asc ''profile'']"

definition SENSITIVE_FORM_INDICATORS :: "jsstring list" where
  "SENSITIVE_FORM_INDICATORS =
     [asc ''payment'', asc ''credit-card'', asc ''cvv'', asc ''card-number'', asc ''billing'',
      asc ''password'']"

fun RISK_LEVEL_ORDER :: "risk_level \<Rightarrow> int" where
  "RISK_LEVEL_ORDER Critical = 4"
| "RISK_LEVEL_ORDER High = 3"
| "RISK_LEVEL_ORDER Medium = 2"
| "RISK_LEVEL_ORDER Low = 1"

section \<open>SecurityLayer\<close>

fun getRiskLevelForCategory :: "category \<Rightarrow> risk_level" where
  "getRiskLevelForCategory Financial = Critical"
| "getRiskLevelForCategory DataLoss = High"
| "getRiskLevelForCategory Account = High"
| "getRiskLevelForCategory Privacy = Medium"
| "getRiskLevelForCategory ContentModification = Medium"

text \<open>
  The three nested loops of \<open>checkTextForDestructiveKeywords\<close>: keywords of one language,
  languages of one category, categories; each returns at the first keyword included.
\<close>

fun scan_keywords :: "jsstring \<Rightarrow> category \<Rightarrow> jsstring \<Rightarrow> jsstring list \<Rightarrow> assessment option" where
  "scan_keywords lowerText cat lang [] = None"
| "scan_keywords lowerText cat lang (keyword # keywords) =
     (if str_includes lowerText keyword
      then Some \<lparr>isDestructive = True, riskLevel = getRiskLevelForCategory cat,
                 reason = asc ''Detected '' @ category_name cat @ asc '' keyword: '' @ [34]
                          @ keyword @ [34] @ asc '' ('' @ lang @ asc '')'',
                 category = Some cat\<rparr>
      else scan_keywords lowerText cat lang keywords)"

fun scan_languages :: "jsstring \<Rightarrow> category \<Rightarrow> (jsstring \<times> jsstring list) list \<Rightarrow> assessment option" where
  "scan_languages lowerText cat [] = None"
| "scan_languages lowerText cat ((lang, keywords) # languages) =
     (case scan_keywords lowerText cat lang keywords of
        Some a \<Rightarrow> Some a
      | None \<Rightarrow> scan_languages lowerText cat languages)"

fun scan_categories :: "jsstring \<Rightarrow> (category \<times> (jsstring \<times> jsstring list) list) list \<Rightarrow> assessment option" where
  "scan_categories lowerText [] = None"
| "scan_categories lowerText ((cat, languages) # categories) =
     (case scan_languages lowerText cat languages of
        Some a \<Rightarrow> Some a
      | None \<Rightarrow> scan_categories lowerText categories)"

definition checkTextForDestructiveKeywords :: "(jsstring \<Rightarrow> jsstring) \<Rightarrow> jsstring \<Rightarrow> assessment option" where
  "checkTextForDestructiveKeywords lc text = scan_categories (lc text) DESTRUCTIVE_KEYWORDS"

fun first_included :: "jsstring \<Rightarrow> jsstring list \<Rightarrow> jsstring option" where
  "first_included s [] = None"
| "first_included s (indicator # indicators) =
     (if str_includes s indicator then Some indicator else first_included s indicators)"

definition button_indicators :: "jsstring list" where
  "button_indicators =
     [asc ''delete'', asc ''remove'', asc ''buy'', asc ''purchase'', asc ''pay'',
      asc ''submit-payment'', asc ''checkout'', asc ''confirm-order'']"

definition sensitive_form_check :: "jsstring \<Rightarrow> assessment option" where
  "sensitive_form_check attrString =
     (case first_included attrString SENSITIVE_FORM_INDICATORS of
        Some indicator \<Rightarrow>
          Some \<lparr>isDestructive = True, riskLevel = Critical,
                reason = asc ''Sensitive form field detected: '' @ indicator,
                category = Some Financial\<rparr>
      | None \<Rightarrow> None)"

definition checkAttributesForDestructiveIndicators :: "(jsstring \<Rightarrow> jsstring) \<Rightarrow> attributes \<Rightarrow> assessment option" where
  "checkAttributesForDestructiveIndicators lc attrs =
     (let attrString = lc (JSON_stringify attrs) in
      if map_of attrs (asc ''type'') = Some (asc ''submit'')
         \<or> map_of attrs (asc ''role'') = Some (asc ''button'')
      then (case first_included attrString button_indicators of
              Some indicator \<Rightarrow>
                Some \<lparr>isDestructive = True, riskLevel = High,
                      reason = asc ''Button/submit with destructive attribute pattern: '' @ indicator,
                      category = Some ContentModification\<rparr>
            | None \<Rightarrow> sensitive_form_check attrString)
      else sensitive_form_check attrString)"

fun first_matching_pattern :: "jsstring \<Rightarrow> jsstring list \<Rightarrow> jsstring option" where
  "first_matching_pattern url [] = None"
| "first_matching_pattern url (p # ps) =
     (if regex_test_i p url then Some p else first_matching_pattern url ps)"

definition checkUrlForSensitivePatterns :: "jsstring \<Rightarrow> assessment option" where
  "checkUrlForSensitivePatterns url =
     (case first_matching_pattern url SENSITIVE_URL_PATTERNS of
        Some p \<Rightarrow>
          Some \<lparr>isDestructive = True, riskLevel = Medium,
                reason = asc ''Operating in sensitive area: '' @ p,
                category = Some Privacy\<rparr>
      | None \<Rightarrow> None)"

definition sensitiveContexts :: "(jsstring \<times> category \<times> risk_level) list" where
  "sensitiveContexts =
     [(asc ''checkout'', Financial, High),
      (asc ''payment'', Financial, Critical),
      (asc ''cart'', Financial, Low),
      (asc ''billing'', Financial, High),
      (asc ''delete'', DataLoss, High),
      (asc ''settings'', Account, Medium)]"

fun scan_contexts :: "jsstring \<Rightarrow> (jsstring \<times> category \<times> risk_level) list \<Rightarrow> assessment option" where
  "scan_contexts lowerContext [] = None"
| "scan_contexts lowerContext ((p, cat, risk) # rest) =
     (if str_includes lowerContext p
      then Some \<lparr>isDestructive = True, riskLevel = risk,
                 reason = asc ''Action in sensitive context: '' @ p,
                 category = Some cat\<rparr>
      else scan_contexts lowerContext rest)"

definition checkSemanticContext :: "(jsstring \<Rightarrow> jsstring) \<Rightarrow> jsstring \<Rightarrow> assessment option" where
  "checkSemanticContext lc context = scan_contexts (lc context) sensitiveContexts"

definition assessTypeAction :: "(jsstring \<Rightarrow> jsstring) \<Rightarrow> action_context \<Rightarrow> assessment option" where
  "assessTypeAction lc ctx =
     (let attrs = (case elementAttributes ctx of Some a \<Rightarrow> a | None \<Rightarrow> []);
          attrString = lc (JSON_stringify attrs) in
      if map_of attrs (asc ''type'') = Some (asc ''password'')
      then Some \<lparr>isDestructive = True, riskLevel = High,
                 reason = asc ''Typing into password field'', category = Some Account\<rparr>
      else if str_includes attrString (asc ''card'') \<or> str_includes attrString (asc ''cvv'')
              \<or> str_includes attrString (asc ''credit'')
      then Some \<lparr>isDestructive = True, riskLevel = Critical,
                 reason = asc ''Typing into payment information field'',
                 category = Some Financial\<rparr>
      else None)"

text \<open>
  The five signals of \<open>assessAction\<close>, each a list of zero or one candidate, in the
  order in which the source pushes them. A string is truthy when it is present and not
  empty; an attribute object is truthy whenever it is present.
\<close>

definition text_signal :: "(jsstring \<Rightarrow> jsstring) \<Rightarrow> action_context \<Rightarrow> assessment list" where
  "text_signal lc ctx =
     (case elementText ctx of
        Some t \<Rightarrow> if t \<noteq> [] then (case checkTextForDestructiveKeywords lc t of
                                      Some a \<Rightarrow> [a] | None \<Rightarrow> []) else []
      | None \<Rightarrow> [])"

definition attr_signal :: "(jsstring \<Rightarrow> jsstring) \<Rightarrow> action_context \<Rightarrow> assessment list" where
  "attr_signal lc ctx =
     (case elementAttributes ctx of
        Some attrs \<Rightarrow> (case checkAttributesForDestructiveIndicators lc attrs of
                        Some a \<Rightarrow> [a] | None \<Rightarrow> [])
      | None \<Rightarrow> [])"

definition url_signal :: "action_context \<Rightarrow> assessment list" where
  "url_signal ctx =
     (case pageUrl ctx of
        Some u \<Rightarrow> if u \<noteq> [] then (case checkUrlForSensitivePatterns u of
                                      Some a \<Rightarrow> [a] | None \<Rightarrow> []) else []
      | None \<Rightarrow> [])"

definition semantic_signal :: "(jsstring \<Rightarrow> jsstring) \<Rightarrow> action_context \<Rightarrow> assessment list" where
  "semantic_signal lc ctx =
     (case semanticContext ctx of
        Some c \<Rightarrow> if c \<noteq> [] then (case checkSemanticContext lc c of
                                      Some a \<Rightarrow> [a] | None \<Rightarrow> []) else []
      | None \<Rightarrow> [])"

definition type_signal :: "(jsstring \<Rightarrow> jsstring) \<Rightarrow> action_context \<Rightarrow> assessment list" where
  "type_signal lc ctx =
     (if action ctx = asc ''type_text''
      then (case assessTypeAction lc ctx of Some a \<Rightarrow> [a] | None \<Rightarrow> [])
      else [])"

definition collect_assessments :: "(jsstring \<Rightarrow> jsstring) \<Rightarrow> action_context \<Rightarrow> assessment list" where
  "collect_assessments lc ctx =
     text_signal lc ctx @ attr_signal lc ctx @ url_signal ctx @ semantic_signal lc ctx
     @ type_signal lc ctx"

text \<open>
  \<^verbatim>\<open>Array.prototype.sort\<close> is stable. With the comparator
  \<^verbatim>\<open>ORDER[b.riskLevel] - ORDER[a.riskLevel]\<close> it sorts by descending rank, that is by
  ascending negated rank; \<open>sort_key\<close> is the stable insertion sort of the list library.
\<close>

definition sort_by_risk :: "assessment list \<Rightarrow> assessment list" where
  "sort_by_risk assessments = sort_key (\<lambda>a. - RISK_LEVEL_ORDER (riskLevel a)) assessments"

definition assessAction :: "(jsstring \<Rightarrow> jsstring) \<Rightarrow> action_context \<Rightarrow> assessment" where
  "assessAction lc ctx =
     (let assessments = collect_assessments lc ctx in
      if assessments = []
      then \<lparr>isDestructive = False, riskLevel = Low,
            reason = asc ''No destructive patterns detected'', category = None\<rparr>
      else (hd (sort_by_risk assessments))\<lparr>isDestructive := True\<rparr>)"

fun RISK_EMOJI :: "risk_level \<Rightarrow> jsstring" where
  "RISK_EMOJI Critical = [55357, 57000]"
| "RISK_EMOJI High = [9888, 65039]"
| "RISK_EMOJI Medium = [9889]"
| "RISK_EMOJI Low = [8505, 65039]"

text \<open>The risk level and the category label in upper case, as the message prints them.\<close>

fun risk_upper :: "risk_level \<Rightarrow> jsstring" where
  "risk_upper Critical = asc ''CRITICAL''"
| "risk_upper High = asc ''HIGH''"
| "risk_upper Medium = asc ''MEDIUM''"
| "risk_upper Low = asc ''LOW''"

fun category_label :: "category \<Rightarrow> jsstring" where
  "category_label Financial = asc ''FINANCIAL''"
| "category_label DataLoss = asc ''DATA LOSS''"
| "category_label Privacy = asc ''PRIVACY''"
| "category_label Account = asc ''ACCOUNT''"
| "category_label ContentModification = asc ''CONTENT MODIFICATION''"

definition truthy :: "jsstring option \<Rightarrow> bool" where
  "truthy v = (case v of Some t \<Rightarrow> t \<noteq> [] | None \<Rightarrow> False)"

definition generateConfirmationMessage :: "assessment \<Rightarrow> action_context \<Rightarrow> jsstring" where
  "generateConfirmationMessage a ctx =
     RISK_EMOJI (riskLevel a) @ asc '' SECURITY CHECK''
     @ (case category a of Some c \<Rightarrow> asc '' ['' @ category_label c @ asc '']'' | None \<Rightarrow> [])
     @ [10] @ asc ''Risk: '' @ risk_upper (riskLevel a) @ [10]
     @ asc ''Reason: '' @ reason a @ [10, 10]
     @ (if truthy (elementText ctx)
        then asc ''Element: '' @ [34] @ the (elementText ctx) @ [34, 10] else [])
     @ (if truthy (pageUrl ctx) then asc ''Page: '' @ the (pageUrl ctx) @ [10] else [])
     @ [10] @ asc ''Do you want to proceed with this action?''"

section \<open>BrowserManager\<close>

text \<open>
  A call either returns a value or throws an \<^verbatim>\<open>Error\<close> with a message. A Playwright
  page is known by its identity only. The registry \<open>pages\<close> is a \<^verbatim>\<open>Map\<close>: an
  association list in insertion order, where setting a bound key replaces its value in
  place.
\<close>

datatype 'a outcome = Throws jsstring | Returns 'a

type_synonym page = nat

record browser_manager =
  context_ready :: bool
  pages :: "(jsstring \<times> page) list"
  currentPageId :: "jsstring option"

definition launch :: "page \<Rightarrow> browser_manager \<Rightarrow> browser_manager" where
  "launch p bm =
     bm\<lparr>context_ready := True, pages := AList.update (asc ''page-0'') p (pages bm),
        currentPageId := Some (asc ''page-0'')\<rparr>"

definition getCurrentPage :: "browser_manager \<Rightarrow> page outcome" where
  "getCurrentPage bm =
     (if \<not> truthy (currentPageId bm) then Throws (asc ''No active page'')
      else (case map_of (pages bm) (the (currentPageId bm)) of
              None \<Rightarrow> Throws (asc ''No active page'')
            | Some p \<Rightarrow> Returns p))"

text \<open>
  \<open>createNewTab\<close>: \<open>newPage\<close> is what \<^verbatim>\<open>context.newPage()\<close> does and \<open>goto\<close> the
  message \<^verbatim>\<open>page.goto\<close> throws, if it throws. An exception raised after the registry
  was written leaves it written.
\<close>

definition createNewTab :: "page outcome \<Rightarrow> jsstring option \<Rightarrow> jsstring option \<Rightarrow> browser_manager
    \<Rightarrow> jsstring outcome \<times> browser_manager" where
  "createNewTab newPage goto url bm =
     (if \<not> context_ready bm then (Throws (asc ''Browser context not initialized''), bm)
      else (case newPage of
              Throws e \<Rightarrow> (Throws e, bm)
            | Returns p \<Rightarrow>
                (let pageId = asc ''page-'' @ decimal (length (pages bm));
                     bm' = bm\<lparr>pages := AList.update pageId p (pages bm)\<rparr>
                 in if truthy url
                    then (case goto of Some e \<Rightarrow> (Throws e, bm') | None \<Rightarrow> (Returns pageId, bm'))
                    else (Returns pageId, bm'))))"

definition switchTab :: "jsstring option \<Rightarrow> jsstring \<Rightarrow> browser_manager
    \<Rightarrow> unit outcome \<times> browser_manager" where
  "switchTab bringToFront pageId bm =
     (case map_of (pages bm) pageId of
        None \<Rightarrow> (Throws (asc ''Page '' @ pageId @ asc '' not found''), bm)
      | Some p \<Rightarrow>
          (let bm' = bm\<lparr>currentPageId := Some pageId\<rparr>
           in case bringToFront of Some e \<Rightarrow> (Throws e, bm') | None \<Rightarrow> (Returns (), bm')))"

definition closeTab :: "jsstring option \<Rightarrow> jsstring \<Rightarrow> browser_manager
    \<Rightarrow> unit outcome \<times> browser_manager" where
  "closeTab close_fails pageId bm =
     (case map_of (pages bm) pageId of
        None \<Rightarrow> (Throws (asc ''Page '' @ pageId @ asc '' not found''), bm)
      | Some p \<Rightarrow>
          (case close_fails of
             Some e \<Rightarrow> (Throws e, bm)
           | None \<Rightarrow>
               (let remaining = AList.delete pageId (pages bm)
                in (Returns (),
                    bm\<lparr>pages := remaining,
                       currentPageId :=
                         (if currentPageId bm = Some pageId
                          then (case remaining of [] \<Rightarrow> None | (k, v) # rest \<Rightarrow> Some k)
                          else currentPageId bm)\<rparr>))))"

definition listTabs :: "(page \<Rightarrow> jsstring) \<Rightarrow> browser_manager \<Rightarrow> (jsstring \<times> jsstring) list" where
  "listTabs url_of bm = map (\<lambda>(i, p). (i, url_of p)) (pages bm)"

section \<open>Agent data\<close>

record element =
  el_id :: jsstring
  el_tag :: jsstring
  el_text :: "jsstring option"
  el_attributes :: attributes
  el_semanticContext :: "jsstring option"
  el_isInViewport :: bool

record task_step =
  step_id :: jsstring
  step_description :: jsstring
  step_status :: jsstring

record task_plan =
  goal :: jsstring
  steps :: "task_step list"
  currentStepIndex :: int
  adaptations :: "jsstring list"
  completionCriteria :: "jsstring list"

text \<open>
  The arguments of a tool call after \<^verbatim>\<open>JSON.parse\<close>: an object whose properties may
  be absent. Numbers are integers here. The properties that only the browser page, the
  DOM extractor or the terminal read are not listed: what those do with them is part of
  \<open>w_external\<close> below.
\<close>

record step_arg =
  arg_description :: jsstring
  arg_status :: "jsstring option"

record tool_args =
  element_id :: "jsstring option"
  url :: "jsstring option"
  tab_id :: "jsstring option"
  arg_steps :: "step_arg list option"
  current_step_index :: "int option"
  arg_adaptations :: "jsstring list option"
  completion_criteria :: "jsstring list option"
  summary :: "jsstring option"
  success :: bool

text \<open>
  \<open>ArgsInvalid\<close>: the argument text is not JSON and \<^verbatim>\<open>JSON.parse\<close> throws, with
  the given message. Argument texts that parse to something other than an object are not
  covered.
\<close>

datatype parsed_args = ArgsInvalid jsstring | Args tool_args

record tool_call =
  tc_id :: jsstring
  tc_name :: jsstring
  tc_arguments :: parsed_args

text \<open>
  An entry of the conversation. An assistant entry is the message object of the model's
  reply; absent and empty \<^verbatim>\<open>tool_calls\<close> are both the empty list.
\<close>

datatype chat_message =
    SystemMsg jsstring
  | UserMsg jsstring
  | AssistantMsg "jsstring option" "tool_call list"
  | ToolMsg jsstring "jsstring option"

record action_history_item =
  h_iteration :: nat
  h_tool :: jsstring
  h_args :: tool_args
  h_result :: "jsstring option"
  h_success :: bool

text \<open>A confirmation prompt as the terminal showed it, with the user's answer.\<close>

record prompt =
  p_tool :: jsstring
  p_text :: jsstring
  p_category :: "category option"
  p_message :: jsstring
  p_approved :: bool

text \<open>
  The configuration after the constructor has filled in the defaults. \<open>maxIterations\<close>
  is a \<^verbatim>\<open>number\<close> in the program; here it is an integer of either sign (the
  program's own entry point passes 50).
\<close>

record config =
  requireConfirmation :: bool
  maxIterations :: int
  enableThinking :: bool
  showThinkingProcess :: bool
  showPlanVisualization :: bool
  showActionHistory :: bool

record agent_config =
  cfg_requireConfirmation :: "bool option"
  cfg_maxIterations :: "int option"
  cfg_enableThinking :: "bool option"
  cfg_showThinkingProcess :: "bool option"
  cfg_showPlanVisualization :: "bool option"
  cfg_showActionHistory :: "bool option"

text \<open>The constructor's defaults (\<^verbatim>\<open>??\<close>).\<close>

definition BrowserAgent_config :: "agent_config \<Rightarrow> config" where
  "BrowserAgent_config c =
     \<lparr>requireConfirmation = (case cfg_requireConfirmation c of Some b \<Rightarrow> b | None \<Rightarrow> True),
      maxIterations = (case cfg_maxIterations c of Some n \<Rightarrow> n | None \<Rightarrow> 50),
      enableThinking = (case cfg_enableThinking c of Some b \<Rightarrow> b | None \<Rightarrow> True),
      showThinkingProcess = (case cfg_showThinkingProcess c of Some b \<Rightarrow> b | None \<Rightarrow> True),
      showPlanVisualization = (case cfg_showPlanVisualization c of Some b \<Rightarrow> b | None \<Rightarrow> True),
      showActionHistory = (case cfg_showActionHistory c of Some b \<Rightarrow> b | None \<Rightarrow> True)\<rparr>"

text \<open>
  What the dispatcher does, in the order in which it does it: \<open>Dispatched\<close> is a call
  of \<open>executeTool\<close> with a tool name and arguments, \<open>WorldCall\<close> the call that the
  tool then makes on a page, on the DOM extractor or on the browser context, or its
  question to the user. What the gate does before the dispatch is not an event: it reads
  the URL of the current page, and its prompt is recorded in \<open>prompts\<close>.
\<close>

datatype event = Dispatched jsstring tool_args | WorldCall jsstring tool_args

text \<open>
  The fields of \<open>BrowserAgent\<close>, with the plan and the action history its visualizer
  holds. \<open>prompts\<close> and \<open>events\<close> are not fields of the program: \<open>prompts\<close> records
  the confirmation prompts shown so far, the terminal output that the statements about
  the gate speak of, and \<open>events\<close> the dispatches and the calls on the world made so
  far, which the statements about dispatch speak of.
\<close>

record agent =
  browserManager :: browser_manager
  conversationHistory :: "chat_message list"
  currentElements :: "element list"
  isTaskComplete :: bool
  currentPlan :: "task_plan option"
  confirmedActions :: "jsstring set"
  visualizerPlan :: "task_plan option"
  actionHistory :: "action_history_item list"
  prompts :: "prompt list"
  events :: "event list"

text \<open>
  What the world outside the agent does during one tool call: the URL each page reports,
  the user's answer to a confirmation prompt, the page a new tab gets, and the outcome of
  the calls the tool makes on the page, the DOM extractor or the terminal (\<open>w_external\<close>:
  the exception they throw, or the text the tool returns from them), with the element
  list or the element a page query yields. Two answers of the runtime belong here too:
  \<open>w_number_text\<close>, how it prints \<^verbatim>\<open>current_step_index + 1\<close> when the index is not
  a safe integer (the sum is then rounded, and printed in its shortest form), and
  \<open>w_status_color\<close>, what the visualizer's colour table does for a status it has no
  entry for: the message of the \<^verbatim>\<open>TypeError\<close> that calling the entry throws (for a
  name that is no property at all, \<^verbatim>\<open>statusColor is not a function\<close>), or nothing
  when the name is an inherited property that can be called.
\<close>

record call_world =
  w_url_of :: "page \<Rightarrow> jsstring"
  w_confirmed :: bool
  w_newPage :: "page outcome"
  w_external :: "jsstring outcome"
  w_elements :: "element list"
  w_found :: "element option"
  w_number_text :: "int \<Rightarrow> jsstring"
  w_status_color :: "jsstring \<Rightarrow> jsstring option"

datatype llm_reply = LLMThrows jsstring | NoMessage | Message "jsstring option" "tool_call list"

record iter_world =
  w_llm :: llm_reply
  w_calls :: "nat \<Rightarrow> call_world"

section \<open>The confirmation gate\<close>

definition build_context :: "call_world \<Rightarrow> agent \<Rightarrow> page \<Rightarrow> jsstring \<Rightarrow> tool_args \<Rightarrow> action_context" where
  "build_context w s pg toolName args =
     (let el = find (\<lambda>el. Some (el_id el) = element_id args) (currentElements s)
      in \<lparr>action = toolName,
          elementText = (case el of Some e \<Rightarrow> el_text e | None \<Rightarrow> None),
          elementAttributes = (case el of Some e \<Rightarrow> Some (el_attributes e) | None \<Rightarrow> None),
          pageUrl = Some (w_url_of w pg),
          semanticContext = (case el of Some e \<Rightarrow> el_semanticContext e | None \<Rightarrow> None)\<rparr>)"

text \<open>The key \<^verbatim>\<open>`${toolName}:${element?.text || ''}:${assessment.category}`\<close>.\<close>

definition key_text :: "action_context \<Rightarrow> jsstring" where
  "key_text ctx = (if truthy (elementText ctx) then the (elementText ctx) else [])"

definition actionKey :: "jsstring \<Rightarrow> jsstring \<Rightarrow> category option \<Rightarrow> jsstring" where
  "actionKey toolName txt cat =
     toolName @ asc '':'' @ txt @ asc '':''
     @ (case cat of Some c \<Rightarrow> category_name c | None \<Rightarrow> asc ''undefined'')"

definition shouldConfirm :: "(jsstring \<Rightarrow> jsstring) \<Rightarrow> call_world \<Rightarrow> agent \<Rightarrow> jsstring \<Rightarrow> tool_args
    \<Rightarrow> bool outcome" where
  "shouldConfirm lc w s toolName args =
     (case getCurrentPage (browserManager s) of
        Throws e \<Rightarrow> Throws e
      | Returns pg \<Rightarrow>
          (let ctx = build_context w s pg toolName args;
               a = assessAction lc ctx
           in if riskLevel a = Low then Returns False
              else if actionKey toolName (key_text ctx) (category a) \<in> confirmedActions s
              then Returns False
              else Returns (isDestructive a
                     \<and> (riskLevel a = Medium \<or> riskLevel a = High \<or> riskLevel a = Critical))))"

definition confirmAction :: "(jsstring \<Rightarrow> jsstring) \<Rightarrow> call_world \<Rightarrow> agent \<Rightarrow> jsstring \<Rightarrow> tool_args
    \<Rightarrow> bool outcome \<times> agent" where
  "confirmAction lc w s toolName args =
     (case getCurrentPage (browserManager s) of
        Throws e \<Rightarrow> (Throws e, s)
      | Returns pg \<Rightarrow>
          (let ctx = build_context w s pg toolName args;
               a = assessAction lc ctx;
               shown = \<lparr>p_tool = toolName, p_text = key_text ctx, p_category = category a,
                        p_message = generateConfirmationMessage a ctx,
                        p_approved = w_confirmed w\<rparr>;
               s1 = s\<lparr>prompts := prompts s @ [shown]\<rparr>
           in if w_confirmed w
              then (Returns True,
                    s1\<lparr>confirmedActions :=
                         insert (actionKey toolName (key_text ctx) (category a)) (confirmedActions s1)\<rparr>)
              else (Returns False, s1)))"

section \<open>The tool dispatcher\<close>

definition tpl :: "jsstring option \<Rightarrow> jsstring" where
  "tpl v = (case v of Some t \<Rightarrow> t | None \<Rightarrow> asc ''undefined'')"

definition ext_error :: "call_world \<Rightarrow> jsstring option" where
  "ext_error w = (case w_external w of Throws e \<Rightarrow> Some e | Returns t \<Rightarrow> None)"

text \<open>
  Tools that only drive the page, the extractor or the terminal and format a text: they
  write no field of the program. \<open>throwing_tools\<close> let an exception of the page escape,
  \<open>catching_tools\<close> (and \<^verbatim>\<open>click\<close>) catch it and return a failure text.
\<close>

definition throwing_tools :: "jsstring list" where
  "throwing_tools =
     [asc ''get_page_structure'', asc ''scroll'', asc ''wait'', asc ''take_screenshot'',
      asc ''extract_text'', asc ''ask_user'']"

definition catching_tools :: "jsstring list" where
  "catching_tools = [asc ''get_element_info'', asc ''read_page_text'', asc ''type_text'']"

definition failure_text :: "jsstring \<Rightarrow> tool_args \<Rightarrow> jsstring \<Rightarrow> jsstring" where
  "failure_text toolName args e =
     (if toolName = asc ''get_element_info'' then asc ''Error getting element info: '' @ e
      else if toolName = asc ''read_page_text'' then asc ''Error reading text: '' @ e
      else asc ''Failed to type into '' @ tpl (element_id args) @ asc '': '' @ e
           @ asc ''. Make sure this is an input field. Try a different element ID.'')"

definition plan_steps :: "step_arg list \<Rightarrow> task_step list" where
  "plan_steps xs =
     map (\<lambda>(index, step).
            \<lparr>step_id = asc ''step-'' @ decimal (index + 1),
             step_description = arg_description step,
             step_status = (if truthy (arg_status step) then the (arg_status step)
                            else asc ''pending'')\<rparr>)
         (enumerate 0 xs)"

text \<open>
  \<open>displayPlan\<close> of the visualizer prints the steps in order and calls the colour of
  each step's status: the five statuses of \<open>TaskStepStatus\<close> have one, for any other
  status the call is \<open>w_status_color\<close>. The result is the message of the first call
  that throws.
\<close>

definition known_statuses :: "jsstring list" where
  "known_statuses =
     [asc ''pending'', asc ''in_progress'', asc ''completed'', asc ''failed'', asc ''skipped'']"

fun displayPlan :: "call_world \<Rightarrow> task_step list \<Rightarrow> jsstring option" where
  "displayPlan w [] = None"
| "displayPlan w (step # rest) =
     (if step_status step \<in> set known_statuses then displayPlan w rest
      else (case w_status_color w (step_status step) of
              Some e \<Rightarrow> Some e
            | None \<Rightarrow> displayPlan w rest))"

text \<open>
  The text of \<^verbatim>\<open>${args.current_step_index + 1}\<close>: the sum is exact for a safe
  integer.
\<close>

definition step_number_text :: "call_world \<Rightarrow> int option \<Rightarrow> jsstring" where
  "step_number_text w index =
     (case index of
        None \<Rightarrow> asc ''NaN''
      | Some i \<Rightarrow>
          if - 9007199254740992 < i \<and> i < 9007199254740992 then show_int (i + 1)
          else w_number_text w i)"

text \<open>
  The \<^verbatim>\<open>update_plan\<close> case: the plan is stored, then shown when the plan
  visualization is on; an exception of the display leaves the plan stored.
\<close>

definition update_plan :: "call_world \<Rightarrow> config \<Rightarrow> tool_args \<Rightarrow> agent
    \<Rightarrow> jsstring option outcome \<times> agent" where
  "update_plan w cfg args s =
     (case arg_steps args of
        None \<Rightarrow> (Throws (asc ''Cannot read properties of undefined (reading 'map')''), s)
      | Some xs \<Rightarrow>
          (let new_steps = plan_steps xs;
               plan = \<lparr>goal = (case currentPlan s of
                                 Some p \<Rightarrow> if goal p \<noteq> [] then goal p else asc ''Current task''
                               | None \<Rightarrow> asc ''Current task''),
                       steps = new_steps,
                       currentStepIndex = (case current_step_index args of Some i \<Rightarrow> i | None \<Rightarrow> 0),
                       adaptations = (case arg_adaptations args of
                                        Some a \<Rightarrow> a
                                      | None \<Rightarrow> (case currentPlan s of
                                                    Some p \<Rightarrow> adaptations p | None \<Rightarrow> [])),
                       completionCriteria = (case completion_criteria args of
                                               Some c \<Rightarrow> c | None \<Rightarrow> [])\<rparr>;
               s1 = s\<lparr>currentPlan := Some plan\<rparr>;
               s2 = (if showPlanVisualization cfg then s1\<lparr>visualizerPlan := Some plan\<rparr> else s1);
               shown = (if showPlanVisualization cfg then displayPlan w new_steps else None)
           in case shown of
                Some e \<Rightarrow> (Throws e, s2)
              | None \<Rightarrow>
                  (Returns (Some (asc ''Plan updated: '' @ decimal (length new_steps)
                                  @ asc '' steps, currently on step ''
                                  @ step_number_text w (current_step_index args))),
                   s2)))"

text \<open>
  The cases of the \<^verbatim>\<open>switch\<close> in \<open>executeTool\<close>, one definition for each case
  that writes a field of the agent and one for the cases that write none. A case notes
  the call it makes on the world at the place where it makes it.
\<close>

definition note_call :: "jsstring \<Rightarrow> tool_args \<Rightarrow> agent \<Rightarrow> agent" where
  "note_call toolName args s = s\<lparr>events := events s @ [WorldCall toolName args]\<rparr>"

definition page_tools :: "jsstring list" where
  "page_tools = [asc ''navigate'', asc ''click'', asc ''go_back''] @ throwing_tools @ catching_tools"

definition page_tool :: "call_world \<Rightarrow> jsstring \<Rightarrow> tool_args \<Rightarrow> jsstring option outcome" where
  "page_tool w toolName args =
     (if toolName = asc ''navigate'' then
        (case w_external w of
           Throws e \<Rightarrow> Throws e
         | Returns t \<Rightarrow> Returns (Some (asc ''Navigated to '' @ tpl (url args))))
      else if toolName = asc ''click'' then
        (case w_external w of
           Throws e \<Rightarrow>
             Returns (Some (asc ''Failed to click '' @ tpl (element_id args) @ asc '': '' @ e
                @ asc ''. Try scrolling to the element or using a different element ID.''))
         | Returns t \<Rightarrow>
             Returns (Some (asc ''Clicked element '' @ tpl (element_id args)
                @ asc ''. Call get_page_content to see the updated page.'')))
      else if toolName = asc ''go_back'' then
        (case w_external w of
           Throws e \<Rightarrow> Throws e
         | Returns t \<Rightarrow> Returns (Some (asc ''Navigated back'')))
      else if toolName \<in> set catching_tools then
        (case w_external w of
           Throws e \<Rightarrow> Returns (Some (failure_text toolName args e))
         | Returns t \<Rightarrow> Returns (Some t))
      else
        (case w_external w of
           Throws e \<Rightarrow> Throws e
         | Returns t \<Rightarrow> Returns (Some t)))"

definition get_page_content :: "call_world \<Rightarrow> tool_args \<Rightarrow> agent \<Rightarrow> jsstring option outcome \<times> agent" where
  "get_page_content w args s =
     (let s0 = note_call (asc ''get_page_content'') args s
      in case w_external w of
           Throws e \<Rightarrow> (Throws e, s0)
         | Returns t \<Rightarrow> (Returns (Some t), s0\<lparr>currentElements := w_elements w\<rparr>))"

definition find_element :: "call_world \<Rightarrow> tool_args \<Rightarrow> agent \<Rightarrow> jsstring option outcome \<times> agent" where
  "find_element w args s =
     (let s0 = note_call (asc ''find_element'') args s
      in case w_external w of
           Throws e \<Rightarrow> (Throws e, s0)
         | Returns t \<Rightarrow>
             (case w_found w of
                Some el \<Rightarrow>
                  (Returns (Some t),
                   s0\<lparr>currentElements :=
                        [el\<lparr>el_semanticContext := None, el_isInViewport := False\<rparr>]\<rparr>)
              | None \<Rightarrow>
                  (Returns (Some (asc ''No element found. Try different selector/text/attribute or use get_page_content to see all elements.'')),
                   s0)))"

text \<open>
  The tab tools call the world once the manager's own checks have passed: a new page
  is asked for when the context exists, a page is brought to front or closed when its
  identifier is registered.
\<close>

definition new_tab :: "call_world \<Rightarrow> tool_args \<Rightarrow> agent \<Rightarrow> jsstring option outcome \<times> agent" where
  "new_tab w args s =
     (let s0 = (if context_ready (browserManager s) then note_call (asc ''new_tab'') args s
                else s)
      in case createNewTab (w_newPage w) (ext_error w) (url args) (browserManager s) of
           (Throws e, bm) \<Rightarrow> (Throws e, s0\<lparr>browserManager := bm\<rparr>)
         | (Returns tabId, bm) \<Rightarrow>
             (Returns (Some (asc ''Created new tab: '' @ tabId
                @ (if truthy (url args) then asc '' at '' @ the (url args) else []))),
              s0\<lparr>browserManager := bm\<rparr>))"

definition switch_tab :: "call_world \<Rightarrow> tool_args \<Rightarrow> agent \<Rightarrow> jsstring option outcome \<times> agent" where
  "switch_tab w args s =
     (case tab_id args of
        None \<Rightarrow> (Throws (asc ''Page undefined not found''), s)
      | Some i \<Rightarrow>
          (let s0 = (if map_of (pages (browserManager s)) i \<noteq> None
                     then note_call (asc ''switch_tab'') args s else s)
           in case switchTab (ext_error w) i (browserManager s) of
                (Throws e, bm) \<Rightarrow> (Throws e, s0\<lparr>browserManager := bm\<rparr>)
              | (Returns u, bm) \<Rightarrow>
                  (Returns (Some (asc ''Switched to tab '' @ i)), s0\<lparr>browserManager := bm\<rparr>)))"

definition list_tabs :: "call_world \<Rightarrow> agent \<Rightarrow> jsstring" where
  "list_tabs w s =
     asc ''Open tabs:'' @ [10]
     @ join_with [10] (map (\<lambda>(i, u). asc ''- '' @ i @ asc '': '' @ u)
                           (listTabs (w_url_of w) (browserManager s)))"

definition close_tab :: "call_world \<Rightarrow> tool_args \<Rightarrow> agent \<Rightarrow> jsstring option outcome \<times> agent" where
  "close_tab w args s =
     (case tab_id args of
        None \<Rightarrow> (Throws (asc ''Page undefined not found''), s)
      | Some i \<Rightarrow>
          (let s0 = (if map_of (pages (browserManager s)) i \<noteq> None
                     then note_call (asc ''close_tab'') args s else s)
           in case closeTab (ext_error w) i (browserManager s) of
                (Throws e, bm) \<Rightarrow> (Throws e, s0\<lparr>browserManager := bm\<rparr>)
              | (Returns u, bm) \<Rightarrow>
                  (Returns (Some (asc ''Closed tab '' @ i)), s0\<lparr>browserManager := bm\<rparr>)))"

text \<open>
  The \<^verbatim>\<open>complete_task\<close> case sets the completion flag first. With the plan
  visualization and the action history on, \<open>displayActionHistory(10)\<close> then prints the
  last ten items of the history and reads \<^verbatim>\<open>action.result.substring\<close> of each: an
  item whose result is undefined (an earlier \<^verbatim>\<open>complete_task\<close> without a summary)
  makes it throw, with the flag already set.
\<close>

definition displayActionHistory :: "nat \<Rightarrow> action_history_item list \<Rightarrow> jsstring option" where
  "displayActionHistory lastN history =
     (if None \<in> set (map h_result
                     (if lastN = 0 then history else drop (length history - lastN) history))
      then Some (asc ''Cannot read properties of undefined (reading 'substring')'')
      else None)"

definition complete_task :: "config \<Rightarrow> tool_args \<Rightarrow> agent \<Rightarrow> jsstring option outcome \<times> agent" where
  "complete_task cfg args s =
     (let s1 = s\<lparr>isTaskComplete := True\<rparr>
      in if showPlanVisualization cfg \<and> showActionHistory cfg
         then (case displayActionHistory 10 (actionHistory s1) of
                 Some e \<Rightarrow> (Throws e, s1)
               | None \<Rightarrow> (Returns (summary args), s1))
         else (Returns (summary args), s1))"

definition run_tool :: "call_world \<Rightarrow> config \<Rightarrow> agent \<Rightarrow> jsstring \<Rightarrow> tool_args
    \<Rightarrow> jsstring option outcome \<times> agent" where
  "run_tool w cfg s toolName args =
     (if toolName \<in> set page_tools
      then (page_tool w toolName args, note_call toolName args s)
      else if toolName = asc ''get_page_content'' then get_page_content w args s
      else if toolName = asc ''find_element'' then find_element w args s
      else if toolName = asc ''new_tab'' then new_tab w args s
      else if toolName = asc ''switch_tab'' then switch_tab w args s
      else if toolName = asc ''list_tabs''
      then (Returns (Some (list_tabs w s)),
            if pages (browserManager s) = [] then s else note_call toolName args s)
      else if toolName = asc ''close_tab'' then close_tab w args s
      else if toolName = asc ''update_plan'' then update_plan w cfg args s
      else if toolName = asc ''complete_task'' then complete_task cfg args s
      else (Throws (asc ''Unknown tool: '' @ toolName), s))"

text \<open>
  \<open>executeTool\<close>: the current page is fetched before the \<^verbatim>\<open>switch\<close>. The call
  itself is noted as a dispatch.
\<close>

definition executeTool :: "call_world \<Rightarrow> config \<Rightarrow> agent \<Rightarrow> jsstring \<Rightarrow> tool_args
    \<Rightarrow> jsstring option outcome \<times> agent" where
  "executeTool w cfg s toolName args =
     (let s0 = s\<lparr>events := events s @ [Dispatched toolName args]\<rparr>
      in case getCurrentPage (browserManager s0) of
           Throws e \<Rightarrow> (Throws e, s0)
         | Returns pg \<Rightarrow> run_tool w cfg s0 toolName args)"

section \<open>The execution loop\<close>

definition push :: "chat_message \<Rightarrow> agent \<Rightarrow> agent" where
  "push m s = s\<lparr>conversationHistory := conversationHistory s @ [m]\<rparr>"

text \<open>
  The part of the loop body after the gate: dispatch with the inner \<^verbatim>\<open>try/catch\<close>,
  the tool-result entry, the action history (its time stamp is left out).
\<close>

definition dispatch :: "call_world \<Rightarrow> config \<Rightarrow> nat \<Rightarrow> tool_call \<Rightarrow> tool_args \<Rightarrow> agent \<Rightarrow> agent" where
  "dispatch w cfg iteration tc args s =
     (case executeTool w cfg s (tc_name tc) args of
        (r, s1) \<Rightarrow>
          (let result = (case r of Throws e \<Rightarrow> Some (asc ''Error: '' @ e) | Returns x \<Rightarrow> x);
               toolSuccess = (case r of Throws e \<Rightarrow> False | Returns x \<Rightarrow> True);
               s2 = push (ToolMsg (tc_id tc) result) s1
           in if showPlanVisualization cfg \<and> showActionHistory cfg
              then s2\<lparr>actionHistory := actionHistory s2 @
                        [\<lparr>h_iteration = iteration, h_tool = tc_name tc, h_args = args,
                          h_result = result, h_success = toolSuccess\<rparr>]\<rparr>
              else s2))"

text \<open>One pass of the \<^verbatim>\<open>for\<close> loop over the tool calls; \<open>Throws\<close> leaves the loop.\<close>

definition process_tool_call :: "(jsstring \<Rightarrow> jsstring) \<Rightarrow> config \<Rightarrow> call_world \<Rightarrow> nat \<Rightarrow> tool_call
    \<Rightarrow> agent \<Rightarrow> unit outcome \<times> agent" where
  "process_tool_call lc cfg w iteration tc s =
     (case tc_arguments tc of
        ArgsInvalid e \<Rightarrow> (Throws e, s)
      | Args args \<Rightarrow>
          if requireConfirmation cfg
          then (case shouldConfirm lc w s (tc_name tc) args of
                  Throws e \<Rightarrow> (Throws e, s)
                | Returns False \<Rightarrow> (Returns (), dispatch w cfg iteration tc args s)
                | Returns True \<Rightarrow>
                    (case confirmAction lc w s (tc_name tc) args of
                       (Throws e, s1) \<Rightarrow> (Throws e, s1)
                     | (Returns False, s1) \<Rightarrow>
                         (Returns (),
                          push (ToolMsg (tc_id tc) (Some (asc ''Action cancelled by user''))) s1)
                     | (Returns True, s1) \<Rightarrow> (Returns (), dispatch w cfg iteration tc args s1)))
          else (Returns (), dispatch w cfg iteration tc args s))"

fun process_tool_calls :: "(jsstring \<Rightarrow> jsstring) \<Rightarrow> config \<Rightarrow> (nat \<Rightarrow> call_world) \<Rightarrow> nat \<Rightarrow> nat
    \<Rightarrow> tool_call list \<Rightarrow> agent \<Rightarrow> unit outcome \<times> agent" where
  "process_tool_calls lc cfg cw iteration k [] s = (Returns (), s)"
| "process_tool_calls lc cfg cw iteration k (tc # tcs) s =
     (case process_tool_call lc cfg (cw k) iteration tc s of
        (Throws e, s1) \<Rightarrow> (Throws e, s1)
      | (Returns u, s1) \<Rightarrow> process_tool_calls lc cfg cw iteration (Suc k) tcs s1)"

text \<open>The \<^verbatim>\<open>try\<close> block of one iteration, and the iteration with its \<^verbatim>\<open>catch\<close>.\<close>

definition try_block :: "(jsstring \<Rightarrow> jsstring) \<Rightarrow> config \<Rightarrow> iter_world \<Rightarrow> nat \<Rightarrow> agent
    \<Rightarrow> unit outcome \<times> agent" where
  "try_block lc cfg w iteration s =
     (case w_llm w of
        LLMThrows e \<Rightarrow> (Throws e, s)
      | NoMessage \<Rightarrow> (Throws (asc ''No response from LLM''), s)
      | Message content calls \<Rightarrow>
          (let s1 = push (AssistantMsg content calls) s
           in if calls \<noteq> []
              then process_tool_calls lc cfg (w_calls w) iteration 0 calls s1
              else (Throws (asc ''Model did not return tool calls as required''), s1)))"

definition corrective :: "jsstring \<Rightarrow> chat_message" where
  "corrective e = UserMsg (asc ''An error occurred: '' @ e @ asc ''. Please try a different approach.'')"

definition run_iteration :: "(jsstring \<Rightarrow> jsstring) \<Rightarrow> config \<Rightarrow> iter_world \<Rightarrow> nat \<Rightarrow> agent \<Rightarrow> agent" where
  "run_iteration lc cfg w iteration s =
     (case try_block lc cfg w iteration s of
        (Throws e, s1) \<Rightarrow> push (corrective e) s1
      | (Returns u, s1) \<Rightarrow> s1)"

text \<open>
  The \<^verbatim>\<open>while\<close> loop. \<open>w i\<close> is what the world does during iteration \<open>i\<close>, counted
  from 1. The result is the agent and the value of \<open>iteration\<close> when the loop ends.
\<close>

function executeLoop :: "(jsstring \<Rightarrow> jsstring) \<Rightarrow> config \<Rightarrow> (nat \<Rightarrow> iter_world) \<Rightarrow> nat \<Rightarrow> agent
    \<Rightarrow> agent \<times> nat" where
  "executeLoop lc cfg w iteration s =
     (if \<not> isTaskComplete s \<and> int iteration < maxIterations cfg
      then executeLoop lc cfg w (Suc iteration)
             (run_iteration lc cfg (w (Suc iteration)) (Suc iteration) s)
      else (s, iteration))"
  by pat_completeness auto
termination
  by (relation "measure (\<lambda>(lc, cfg, w, iteration, s). nat (maxIterations cfg) - iteration)") auto

declare executeLoop.simps [simp del]

text \<open>
  The outcome of a task: it was completed, or the loop ended at the iteration cap and
  the warning \<^verbatim>\<open>Task reached maximum iterations\<close> was logged.
\<close>

datatype task_outcome = TaskCompleted | ReachedMaximumIterations

record task_result =
  final :: agent
  iterations :: nat
  outcome :: task_outcome

text \<open>\<open>task_start\<close> is the part of \<open>executeTask\<close> before the loop.\<close>

definition task_start :: "config \<Rightarrow> jsstring \<Rightarrow> agent \<Rightarrow> agent" where
  "task_start cfg task s =
     (let s1 = push (UserMsg task) s;
          plan = \<lparr>goal = task, steps = [], currentStepIndex = 0, adaptations = [],
                  completionCriteria = []\<rparr>;
          s2 = (if showPlanVisualization cfg
                then s1\<lparr>currentPlan := Some plan, visualizerPlan := Some plan\<rparr> else s1)
      in s2\<lparr>isTaskComplete := False, confirmedActions := {}\<rparr>)"

definition executeTask :: "(jsstring \<Rightarrow> jsstring) \<Rightarrow> config \<Rightarrow> (nat \<Rightarrow> iter_world) \<Rightarrow> jsstring \<Rightarrow> agent
    \<Rightarrow> task_result" where
  "executeTask lc cfg w task s =
     (case executeLoop lc cfg w 0 (task_start cfg task s) of
        (s4, n) \<Rightarrow>
          \<lparr>final = s4, iterations = n,
           outcome = (if \<not> isTaskComplete s4 then ReachedMaximumIterations else TaskCompleted)\<rparr>)"

text \<open>
  \<open>initialize\<close> launches the browser (both launch variants register their page as
  \<^verbatim>\<open>page-0\<close>) and opens the conversation with the system prompt, whose text is a
  parameter here.
\<close>

definition initialize :: "jsstring \<Rightarrow> page \<Rightarrow> agent \<Rightarrow> agent" where
  "initialize system_prompt p s =
     push (SystemMsg system_prompt) (s\<lparr>browserManager := launch p (browserManager s)\<rparr>)"

text \<open>A freshly constructed agent.\<close>

definition new_agent :: agent where
  "new_agent =
     \<lparr>browserManager = \<lparr>context_ready = False, pages = [], currentPageId = None\<rparr>,
      conversationHistory = [], currentElements = [], isTaskComplete = False,
      currentPlan = None, confirmedActions = {}, visualizerPlan = None, actionHistory = [],
      prompts = [], events = []\<rparr>"

text \<open>A session: the tasks the user enters one after the other, each with its world.\<close>

fun run_session :: "(jsstring \<Rightarrow> jsstring) \<Rightarrow> config \<Rightarrow> (jsstring \<times> (nat \<Rightarrow> iter_world)) list \<Rightarrow> agent
    \<Rightarrow> agent" where
  "run_session lc cfg [] s = s"
| "run_session lc cfg ((task, w) # rest) s =
     run_session lc cfg rest (final (executeTask lc cfg w task s))"

section \<open>Notions used in the statements and proofs\<close>

text \<open>All keywords the dictionary lists under one category, over all its languages.\<close>

definition keywords_of :: "category \<Rightarrow> jsstring list" where
  "keywords_of cat =
     concat (map snd (concat (map snd (filter (\<lambda>(c, languages). c = cat) DESTRUCTIVE_KEYWORDS))))"

text \<open>
  \<open>keeps_logs s s'\<close>: the step from \<open>s\<close> to \<open>s'\<close> leaves the conversation, the
  prompts shown, the confirmed keys and the action history as they are.
\<close>

definition keeps_logs :: "agent \<Rightarrow> agent \<Rightarrow> bool" where
  "keeps_logs s s' =
     (conversationHistory s' = conversationHistory s \<and> prompts s' = prompts s
      \<and> confirmedActions s' = confirmedActions s \<and> actionHistory s' = actionHistory s)"

text \<open>
  \<open>only_logs s s'\<close>: the step from \<open>s\<close> to \<open>s'\<close> writes nothing but the
  conversation, the action history and the record of events.
\<close>

definition only_logs :: "agent \<Rightarrow> agent \<Rightarrow> bool" where
  "only_logs s s' =
     (browserManager s' = browserManager s \<and> isTaskComplete s' = isTaskComplete s
      \<and> currentElements s' = currentElements s \<and> currentPlan s' = currentPlan s
      \<and> visualizerPlan s' = visualizerPlan s \<and> confirmedActions s' = confirmedActions s
      \<and> prompts s' = prompts s)"

text \<open>
  \<open>run_iterations lc cfg w n s\<close> is the agent after the loop body has run \<open>n\<close> times
  from \<open>s\<close>, as iterations 1 to \<open>n\<close>, iteration \<open>i\<close> in the world \<open>w i\<close>.
\<close>

fun run_iterations :: "(jsstring \<Rightarrow> jsstring) \<Rightarrow> config \<Rightarrow> (nat \<Rightarrow> iter_world) \<Rightarrow> nat \<Rightarrow> agent
    \<Rightarrow> agent" where
  "run_iterations lc cfg w 0 s = s"
| "run_iterations lc cfg w (Suc n) s =
     run_iteration lc cfg (w (Suc n)) (Suc n) (run_iterations lc cfg w n s)"

text \<open>
  The events recorded between two states of the agent, the names of the tools
  dispatched in a list of events, and the names of the tools that called the world.
\<close>

definition task_events :: "agent \<Rightarrow> agent \<Rightarrow> event list" where
  "task_events s s' = drop (length (events s)) (events s')"

fun dispatched_names :: "event list \<Rightarrow> jsstring list" where
  "dispatched_names [] = []"
| "dispatched_names (Dispatched n a # es) = n # dispatched_names es"
| "dispatched_names (WorldCall n a # es) = dispatched_names es"

fun world_calls :: "event list \<Rightarrow> jsstring list" where
  "world_calls [] = []"
| "world_calls (Dispatched n a # es) = world_calls es"
| "world_calls (WorldCall n a # es) = n # world_calls es"

text \<open>
  \<open>advances s s'\<close>: from \<open>s\<close> to \<open>s'\<close> events are only appended, and the completion
  flag is set only when \<^verbatim>\<open>complete_task\<close> is among the tools dispatched.
\<close>

definition advances :: "agent \<Rightarrow> agent \<Rightarrow> bool" where
  "advances s s' =
     (prefix (events s) (events s')
      \<and> (isTaskComplete s' \<longrightarrow>
            isTaskComplete s \<or> asc ''complete_task'' \<in> set (dispatched_names (task_events s s'))))"

text \<open>
  The triple a prompt was shown for, the key the gate computes from it, and the prompts
  shown between two states of the agent.
\<close>

definition prompt_triple :: "prompt \<Rightarrow> jsstring \<times> jsstring \<times> category option" where
  "prompt_triple p = (p_tool p, p_text p, p_category p)"

definition prompt_key :: "prompt \<Rightarrow> jsstring" where
  "prompt_key p = actionKey (p_tool p) (p_text p) (p_category p)"

definition task_prompts :: "agent \<Rightarrow> agent \<Rightarrow> prompt list" where
  "task_prompts s s' = drop (length (prompts s)) (prompts s')"

text \<open>
  \<open>no_reprompt\<close>: no prompt of the list follows an approved prompt with the same key.
  \<open>gate_invariant m s\<close>: that holds of the prompts shown since the log had length
  \<open>m\<close>, and the keys of the approved ones are in the confirmed set.
\<close>

fun no_reprompt :: "prompt list \<Rightarrow> bool" where
  "no_reprompt [] = True"
| "no_reprompt (p # ps) =
     ((p_approved p \<longrightarrow> (\<forall>q\<in>set ps. prompt_key q \<noteq> prompt_key p)) \<and> no_reprompt ps)"

definition gate_invariant :: "nat \<Rightarrow> agent \<Rightarrow> bool" where
  "gate_invariant m s =
     (m \<le> length (prompts s)
      \<and> (\<forall>p\<in>set (drop m (prompts s)). p_approved p \<longrightarrow> prompt_key p \<in> confirmedActions s)
      \<and> no_reprompt (drop m (prompts s)))"

section \<open>Example inputs\<close>

definition tie_context :: action_context where
  "tie_context =
     \<lparr>action = asc ''click'', elementText = Some (asc ''Delete item''),
      elementAttributes = Some [(asc ''type'', asc ''submit''), (asc ''class'', asc ''btn remove'')],
      pageUrl = Some (asc ''https://shop.example/cart''),
      semanticContext = Some (asc ''Delete zone'')\<rparr>"

definition purchase_context :: action_context where
  "purchase_context =
     \<lparr>action = asc ''click'', elementText = Some (asc ''Complete Purchase''),
      elementAttributes = Some [(asc ''type'', asc ''submit'')],
      pageUrl = Some (asc ''https://shop.example/checkout''),
      semanticContext = None\<rparr>"

definition three_tabs :: browser_manager where
  "three_tabs =
     snd (createNewTab (Returns 12) None None
       (snd (createNewTab (Returns 11) None None
         (launch 10 \<lparr>context_ready = False, pages = [], currentPageId = None\<rparr>))))"

definition first_closed :: browser_manager where
  "first_closed = snd (closeTab None (asc ''page-0'') three_tabs)"

definition second_closed :: browser_manager where
  "second_closed = snd (closeTab None (asc ''page-1'') three_tabs)"

definition after_first_closed :: browser_manager where
  "after_first_closed = snd (createNewTab (Returns 13) None None first_closed)"

definition after_second_closed :: browser_manager where
  "after_second_closed = snd (createNewTab (Returns 13) None None second_closed)"

definition default_config :: config where
  "default_config =
     BrowserAgent_config \<lparr>cfg_requireConfirmation = None, cfg_maxIterations = None,
       cfg_enableThinking = None, cfg_showThinkingProcess = None,
       cfg_showPlanVisualization = None, cfg_showActionHistory = None\<rparr>"

definition started_agent :: agent where
  "started_agent = initialize (asc ''You are an intelligent web automation agent.'') 0 new_agent"

definition no_args :: tool_args where
  "no_args =
     \<lparr>element_id = None, url = None, tab_id = None, arg_steps = None,
      current_step_index = None, arg_adaptations = None, completion_criteria = None,
      summary = None, success = False\<rparr>"

definition quiet_call :: call_world where
  "quiet_call =
     \<lparr>w_url_of = (\<lambda>p. asc ''https://example.org/''), w_confirmed = False,
      w_newPage = Returns 1, w_external = Returns (asc ''ok''), w_elements = [],
      w_found = None, w_number_text = show_int,
      w_status_color = (\<lambda>status. Some (asc ''statusColor is not a function''))\<rparr>"

definition plan_request :: tool_args where
  "plan_request =
     no_args\<lparr>arg_steps := Some [\<lparr>arg_description = asc ''Open the site'', arg_status = None\<rparr>],
             current_step_index := Some 5, completion_criteria := Some []\<rparr>"

definition delete_button :: element where
  "delete_button =
     \<lparr>el_id = asc ''el-1'', el_tag = asc ''button'', el_text = Some (asc ''Delete''),
      el_attributes = [(asc ''class'', asc ''btn'')], el_semanticContext = None,
      el_isInViewport = True\<rparr>"

definition agent_with_button :: agent where
  "agent_with_button = started_agent\<lparr>currentElements := [delete_button]\<rparr>"

definition click_delete :: tool_call where
  "click_delete =
     \<lparr>tc_id = asc ''call-1'', tc_name = asc ''click'',
      tc_arguments = Args (no_args\<lparr>element_id := Some (asc ''el-1'')\<rparr>)\<rparr>"

definition silent_model :: "nat \<Rightarrow> iter_world" where
  "silent_model i = \<lparr>w_llm = Message (Some (asc ''Done.'')) [], w_calls = (\<lambda>k. quiet_call)\<rparr>"

definition browsing_model :: "nat \<Rightarrow> iter_world" where
  "browsing_model i =
     \<lparr>w_llm = Message None
        [\<lparr>tc_id = asc ''call-1'', tc_name = asc ''get_page_content'', tc_arguments = Args no_args\<rparr>],
      w_calls = (\<lambda>k. quiet_call)\<rparr>"





definition denying_model :: "nat \<Rightarrow> iter_world" where
  "denying_model i = \<lparr>w_llm = Message None [click_delete], w_calls = (\<lambda>k. quiet_call)\<rparr>"

definition approving_model :: "nat \<Rightarrow> iter_world" where
  "approving_model i =
     \<lparr>w_llm = Message None [click_delete], w_calls = (\<lambda>k. quiet_call\<lparr>w_confirmed := True\<rparr>)\<rparr>"

definition two_iterations :: config where
  "two_iterations = default_config\<lparr>maxIterations := 2\<rparr>"

definition pay_button :: element where
  "pay_button =
     \<lparr>el_id = asc ''el-2'', el_tag = asc ''button'', el_text = Some (asc ''Pay now''),
      el_attributes = [], el_semanticContext = None, el_isInViewport = True\<rparr>"

definition click_pay :: tool_call where
  "click_pay =
     \<lparr>tc_id = asc ''call-2'', tc_name = asc ''click'',
      tc_arguments = Args (no_args\<lparr>element_id := Some (asc ''el-2'')\<rparr>)\<rparr>"

definition agent_with_two_buttons :: agent where
  "agent_with_two_buttons = started_agent\<lparr>currentElements := [delete_button, pay_button]\<rparr>"

definition approving_two :: "nat \<Rightarrow> iter_world" where
  "approving_two i =
     \<lparr>w_llm = Message None [click_delete, click_pay],
      w_calls = (\<lambda>k. quiet_call\<lparr>w_confirmed := True\<rparr>)\<rparr>"

definition approved_run :: "prompt list" where
  "approved_run =
     task_prompts agent_with_two_buttons
       (final (executeTask ascii_lower two_iterations approving_two (asc ''Delete it and pay'')
          agent_with_two_buttons))"

definition denied_run :: "prompt list" where
  "denied_run =
     task_prompts agent_with_button
       (final (executeTask ascii_lower two_iterations denying_model (asc ''Delete the item'')
          agent_with_button))"

section \<open>Properties of the risk assessor\<close>

lemma hd_sort_key_least:
  fixes f :: "'a \<Rightarrow> int"
  assumes "xs \<noteq> []"
  shows "\<forall>x\<in>set xs. f (hd (sort_key f xs)) \<le> f x"
proof -
  have s: "sorted (map f (sort_key f xs))" by (rule sorted_sort_key)
  have "sort_key f xs \<noteq> []" using assms by (metis length_0_conv length_sort)
  then obtain y ys where e: "sort_key f xs = y # ys" by (cases "sort_key f xs") auto
  have "\<forall>x\<in>set (y # ys). f y \<le> f x" using s unfolding e by auto
  then show ?thesis using e by (metis list.sel(1) set_sort)
qed

lemma hd_sort_key_first:
  fixes f :: "'a \<Rightarrow> int"
  assumes "xs \<noteq> []"
  shows "hd (sort_key f xs) = hd (filter (\<lambda>x. f x = f (hd (sort_key f xs))) xs)"
proof -
  have "sort_key f xs \<noteq> []" using assms by (metis length_0_conv length_sort)
  then obtain y ys where e: "sort_key f xs = y # ys" by (cases "sort_key f xs") auto
  have "filter (\<lambda>x. f x = f y) (sort_key f xs) = filter (\<lambda>x. f x = f y) xs"
    by (rule sort_key_stable)
  then have "hd (filter (\<lambda>x. f x = f y) xs) = y"
    unfolding e by (metis (mono_tags, lifting) filter.simps(2) list.sel(1))
  then show ?thesis using e by simp
qed

lemma rank_inj: "RISK_LEVEL_ORDER a = RISK_LEVEL_ORDER b \<longleftrightarrow> a = b"
  by (cases a; cases b) simp_all

lemma rank_le_4: "RISK_LEVEL_ORDER r \<le> 4"
  by (cases r) simp_all

lemma rank_4: "RISK_LEVEL_ORDER r = 4 \<longleftrightarrow> r = Critical"
  by (cases r) simp_all

lemma assessAction_first_of_maximal:
  assumes "collect_assessments lc ctx \<noteq> []"
  shows "isDestructive (assessAction lc ctx)
    \<and> riskLevel (assessAction lc ctx) \<in> riskLevel ` set (collect_assessments lc ctx)
    \<and> (\<forall>c\<in>set (collect_assessments lc ctx).
          RISK_LEVEL_ORDER (riskLevel c) \<le> RISK_LEVEL_ORDER (riskLevel (assessAction lc ctx)))
    \<and> assessAction lc ctx =
        (hd (filter (\<lambda>c. riskLevel c = riskLevel (assessAction lc ctx))
               (collect_assessments lc ctx)))\<lparr>isDestructive := True\<rparr>"
proof -
  define cs where "cs = collect_assessments lc ctx"
  define f where "f = (\<lambda>a::assessment. - RISK_LEVEL_ORDER (riskLevel a))"
  define h where "h = hd (sort_key f cs)"
  have ne: "cs \<noteq> []" using assms cs_def by simp
  have r: "assessAction lc ctx = h\<lparr>isDestructive := True\<rparr>"
    using ne by (simp add: assessAction_def sort_by_risk_def cs_def h_def f_def Let_def)
  have hin: "h \<in> set cs"
    using ne by (metis h_def hd_in_set length_0_conv length_sort set_sort)
  have hmin: "\<forall>x\<in>set cs. f h \<le> f x"
    using hd_sort_key_least [OF ne, of f] h_def by simp
  have hfirst: "h = hd (filter (\<lambda>x. f x = f h) cs)"
    using hd_sort_key_first [OF ne, of f] h_def by simp
  have feq: "(\<lambda>x. f x = f h) = (\<lambda>c. riskLevel c = riskLevel h)"
    by (auto simp: f_def rank_inj fun_eq_iff)
  show ?thesis unfolding cs_def [symmetric] r
    using hin hmin hfirst feq by (auto simp: f_def)
qed

text \<open>
  Claim C1. \<open>collect_assessments\<close> is the list of the candidates that fired, in the
  order element text, element attributes, page URL, semantic context, type-specific
  check. Whenever it is not empty, \<open>assessAction\<close> returns an assessment that is
  destructive, whose risk level is the level of one of the candidates and is not below
  the level of any of them (so it is their maximum), and which is, up to the destructive
  flag set to true, the first candidate of the list that has this maximal level: its
  category and reason are those of that candidate.
\<close>

theorem assessAction_maximal_risk_first_wins:
  assumes "collect_assessments lc ctx \<noteq> []"
  shows "isDestructive (assessAction lc ctx)
    \<and> riskLevel (assessAction lc ctx) \<in> riskLevel ` set (collect_assessments lc ctx)
    \<and> (\<forall>c\<in>set (collect_assessments lc ctx).
          RISK_LEVEL_ORDER (riskLevel c) \<le> RISK_LEVEL_ORDER (riskLevel (assessAction lc ctx)))
    \<and> category (assessAction lc ctx) =
        category (hd (filter (\<lambda>c. riskLevel c = riskLevel (assessAction lc ctx))
                        (collect_assessments lc ctx)))
    \<and> reason (assessAction lc ctx) =
        reason (hd (filter (\<lambda>c. riskLevel c = riskLevel (assessAction lc ctx))
                      (collect_assessments lc ctx)))
    \<and> collect_assessments lc ctx =
        text_signal lc ctx @ attr_signal lc ctx @ url_signal ctx @ semantic_signal lc ctx
        @ type_signal lc ctx"
proof -
  note m = assessAction_first_of_maximal [OF assms]
  define h where "h = hd (filter (\<lambda>c. riskLevel c = riskLevel (assessAction lc ctx))
                            (collect_assessments lc ctx))"
  have e: "assessAction lc ctx = h\<lparr>isDestructive := True\<rparr>" using m h_def by simp
  have "category (assessAction lc ctx) = category h" by (subst e) simp
  moreover have "reason (assessAction lc ctx) = reason h" by (subst e) simp
  ultimately show ?thesis using m by (simp add: h_def collect_assessments_def)
qed

theorem assessAction_maximal_risk_first_wins_witness:
  "collect_assessments ascii_lower tie_context \<noteq> []
   \<and> map riskLevel (collect_assessments ascii_lower tie_context) = [High, High, Medium, High]
   \<and> riskLevel (assessAction ascii_lower tie_context) = High
   \<and> category (assessAction ascii_lower tie_context) = Some DataLoss
   \<and> category (assessAction ascii_lower tie_context) =
        category (hd (filter (\<lambda>c. riskLevel c = riskLevel (assessAction ascii_lower tie_context))
                        (collect_assessments ascii_lower tie_context)))"
proof -
  have h: "collect_assessments ascii_lower tie_context \<noteq> []" by code_simp
  have l: "map riskLevel (collect_assessments ascii_lower tie_context) = [High, High, Medium, High]"
    by code_simp
  have r: "riskLevel (assessAction ascii_lower tie_context) = High" by code_simp
  have c: "category (assessAction ascii_lower tie_context) = Some DataLoss" by code_simp
  show ?thesis
    using h l r c assessAction_maximal_risk_first_wins [OF h] by blast
qed

lemma financial_keywords_nonempty: "[] \<notin> set (keywords_of Financial)"
  by (simp add: keywords_of_def DESTRUCTIVE_KEYWORDS_def asc_def)

lemma scan_keywords_Some:
  "\<exists>kw\<in>set kws. str_includes s kw \<Longrightarrow>
   \<exists>a. scan_keywords s cat lang kws = Some a \<and> isDestructive a
       \<and> riskLevel a = getRiskLevelForCategory cat \<and> category a = Some cat"
  by (induction kws) auto

lemma scan_keywords_None:
  "\<not> (\<exists>kw\<in>set kws. str_includes s kw) \<Longrightarrow> scan_keywords s cat lang kws = None"
  by (induction kws) auto

lemma scan_languages_Some:
  "\<exists>kw\<in>set (concat (map snd langs)). str_includes s kw \<Longrightarrow>
   \<exists>a. scan_languages s cat langs = Some a \<and> isDestructive a
       \<and> riskLevel a = getRiskLevelForCategory cat \<and> category a = Some cat"
proof (induction langs)
  case Nil
  then show ?case by simp
next
  case (Cons p langs)
  obtain lang kws where p: "p = (lang, kws)" by (cases p)
  show ?case
  proof (cases "\<exists>kw\<in>set kws. str_includes s kw")
    case True
    from scan_keywords_Some [OF True, of cat lang] show ?thesis by (auto simp: p)
  next
    case False
    then have n: "scan_keywords s cat lang kws = None" by (rule scan_keywords_None)
    from False Cons.prems have "\<exists>kw\<in>set (concat (map snd langs)). str_includes s kw"
      by (auto simp: p)
    from Cons.IH [OF this] show ?thesis by (simp add: p n)
  qed
qed

lemma financial_is_first_category:
  "\<exists>rest. DESTRUCTIVE_KEYWORDS =
     (Financial, concat (map snd (filter (\<lambda>(c, languages). c = Financial) DESTRUCTIVE_KEYWORDS))) # rest"
  by (simp add: DESTRUCTIVE_KEYWORDS_def)

lemma checkText_financial:
  assumes "kw \<in> set (keywords_of Financial)" "str_includes (lc t) kw"
  shows "\<exists>a. checkTextForDestructiveKeywords lc t = Some a \<and> isDestructive a
       \<and> riskLevel a = Critical \<and> category a = Some Financial"
proof -
  define langs where
    "langs = concat (map snd (filter (\<lambda>(c, languages). c = Financial) DESTRUCTIVE_KEYWORDS))"
  obtain rest where d: "DESTRUCTIVE_KEYWORDS = (Financial, langs) # rest"
    using financial_is_first_category langs_def by blast
  have "\<exists>kw\<in>set (concat (map snd langs)). str_includes (lc t) kw"
    using assms by (auto simp: keywords_of_def langs_def)
  from scan_languages_Some [OF this, of Financial] obtain a where
    a: "scan_languages (lc t) Financial langs = Some a"
     "isDestructive a" "riskLevel a = Critical" "category a = Some Financial"
    by auto
  have "checkTextForDestructiveKeywords lc t = Some a"
    unfolding checkTextForDestructiveKeywords_def by (subst d) (simp add: a)
  then show ?thesis using a by blast
qed

text \<open>
  Claim C7. \<open>lc\<close> is the runtime's \<^verbatim>\<open>toLowerCase\<close>, of which only
  \<^verbatim>\<open>''.toLowerCase() === ''\<close> is used. If the element text of the context, lowered,
  includes a keyword of the financial category in any of its languages, then the
  assessment that \<open>assessAction\<close> returns is destructive, has risk level critical and
  category financial, whatever the other signals yield.
\<close>

theorem financial_keyword_in_text_is_critical_financial:
  assumes lc0: "lc [] = []"
    and t: "elementText ctx = Some t"
    and kw: "kw \<in> set (keywords_of Financial)"
    and inc: "str_includes (lc t) kw"
  shows "isDestructive (assessAction lc ctx)
       \<and> riskLevel (assessAction lc ctx) = Critical
       \<and> category (assessAction lc ctx) = Some Financial"
proof -
  have "kw \<noteq> []" using kw financial_keywords_nonempty by auto
  then have tne: "t \<noteq> []" using inc lc0 by (cases t) auto
  obtain a where a: "checkTextForDestructiveKeywords lc t = Some a" "isDestructive a"
      "riskLevel a = Critical" "category a = Some Financial"
    using checkText_financial [of kw lc t] kw inc by blast
  define rest where
    "rest = attr_signal lc ctx @ url_signal ctx @ semantic_signal lc ctx @ type_signal lc ctx"
  have cs: "collect_assessments lc ctx = a # rest"
    by (simp add: collect_assessments_def text_signal_def t tne a rest_def)
  then have ne: "collect_assessments lc ctx \<noteq> []" by simp
  note m = assessAction_first_of_maximal [OF ne]
  have "RISK_LEVEL_ORDER (riskLevel a) \<le> RISK_LEVEL_ORDER (riskLevel (assessAction lc ctx))"
    using m cs by simp
  then have crit: "riskLevel (assessAction lc ctx) = Critical"
    using a(3) rank_le_4 [of "riskLevel (assessAction lc ctx)"] by (simp add: rank_4 [symmetric])
  have "assessAction lc ctx = a\<lparr>isDestructive := True\<rparr>"
    using m cs crit a(3) by simp
  then show ?thesis using a by simp
qed

theorem financial_keyword_in_text_is_critical_financial_witness:
  "ascii_lower [] = []
   \<and> elementText purchase_context = Some (asc ''Complete Purchase'')
   \<and> asc ''purchase'' \<in> set (keywords_of Financial)
   \<and> str_includes (ascii_lower (asc ''Complete Purchase'')) (asc ''purchase'')
   \<and> isDestructive (assessAction ascii_lower purchase_context)
   \<and> riskLevel (assessAction ascii_lower purchase_context) = Critical
   \<and> category (assessAction ascii_lower purchase_context) = Some Financial"
proof -
  have h1: "ascii_lower [] = []" by (simp add: ascii_lower_def)
  have h2: "elementText purchase_context = Some (asc ''Complete Purchase'')"
    by (simp add: purchase_context_def)
  have h3: "asc ''purchase'' \<in> set (keywords_of Financial)" by code_simp
  have h4: "str_includes (ascii_lower (asc ''Complete Purchase'')) (asc ''purchase'')"
    by code_simp
  show ?thesis
    using h1 h2 h3 h4 financial_keyword_in_text_is_critical_financial [OF h1 h2 h3 h4] by blast
qed

section \<open>Properties of the tab registry\<close>

lemma createNewTab_pages:
  "context_ready bm \<Longrightarrow>
   pages (snd (createNewTab (Returns p) goto u bm)) =
     AList.update (asc ''page-'' @ decimal (length (pages bm))) p (pages bm)"
  by (simp add: createNewTab_def Let_def split: option.splits)

lemma createNewTab_result:
  "context_ready bm \<Longrightarrow> goto = None \<or> \<not> truthy u \<Longrightarrow>
   fst (createNewTab (Returns p) goto u bm) = Returns (asc ''page-'' @ decimal (length (pages bm)))"
  by (auto simp add: createNewTab_def Let_def split: option.splits)

lemma three_tabs_eval:
  "three_tabs = \<lparr>context_ready = True,
      pages = [(asc ''page-0'', 10), (asc ''page-1'', 11), (asc ''page-2'', 12)],
      currentPageId = Some (asc ''page-0'')\<rparr>"
  by code_simp

lemma first_closed_eval:
  "first_closed = \<lparr>context_ready = True,
      pages = [(asc ''page-1'', 11), (asc ''page-2'', 12)],
      currentPageId = Some (asc ''page-1'')\<rparr>"
  by code_simp

lemma second_closed_eval:
  "second_closed = \<lparr>context_ready = True,
      pages = [(asc ''page-0'', 10), (asc ''page-2'', 12)],
      currentPageId = Some (asc ''page-0'')\<rparr>"
  by code_simp

lemma after_first_closed_eval:
  "after_first_closed = \<lparr>context_ready = True,
      pages = [(asc ''page-1'', 11), (asc ''page-2'', 13)],
      currentPageId = Some (asc ''page-1'')\<rparr>"
  by code_simp

lemma after_second_closed_eval:
  "after_second_closed = \<lparr>context_ready = True,
      pages = [(asc ''page-0'', 10), (asc ''page-2'', 13)],
      currentPageId = Some (asc ''page-0'')\<rparr>"
  by code_simp

lemma update_bound_key_length:
  "map_of al k = Some q \<Longrightarrow> length (AList.update k v al) = length al"
  by (induction al) (auto split: if_splits)

lemma switchTab_reaches_registered:
  "getCurrentPage (snd (switchTab b i bm)) = Returns q \<Longrightarrow> q \<in> snd ` set (pages bm)"
  by (auto simp: switchTab_def getCurrentPage_def Let_def truthy_def
      split: option.splits if_splits dest!: map_of_SomeD intro: rev_image_eqI)

text \<open>
  Claim C10. \<open>createNewTab\<close>, once the browser context exists and the new page was
  obtained, registers the page under \<^verbatim>\<open>page-\<close> followed by the number of registered
  tabs, and returns that identifier unless the navigation throws; when that identifier
  is already bound, the entry is overwritten and the registry does not grow. Consequently
  identifiers are reused: after a launch and two new tabs the registry binds
  \<^verbatim>\<open>page-0\<close>, \<^verbatim>\<open>page-1\<close>, \<^verbatim>\<open>page-2\<close> to the pages 10, 11, 12; when a tab
  other than the most recent one is closed (\<^verbatim>\<open>page-0\<close> or \<^verbatim>\<open>page-1\<close>), the next
  \<open>createNewTab\<close> returns \<^verbatim>\<open>page-2\<close>, which is still bound to the open page 12, and
  overwrites that entry with the new page 13. No identifier leads to page 12 any more:
  \<open>switchTab\<close> cannot make it the current page and \<open>closeTab\<close> cannot find it.
\<close>

theorem createNewTab_reuses_bound_identifier:
  assumes "context_ready bm"
  shows "pages (snd (createNewTab (Returns p) goto u bm)) =
           AList.update (asc ''page-'' @ decimal (length (pages bm))) p (pages bm)
    \<and> (goto = None \<longrightarrow>
         fst (createNewTab (Returns p) goto u bm) =
           Returns (asc ''page-'' @ decimal (length (pages bm))))
    \<and> (\<forall>q. map_of (pages bm) (asc ''page-'' @ decimal (length (pages bm))) = Some q \<longrightarrow>
           map_of (pages (snd (createNewTab (Returns p) goto u bm)))
             (asc ''page-'' @ decimal (length (pages bm))) = Some p
         \<and> length (pages (snd (createNewTab (Returns p) goto u bm))) = length (pages bm))
    \<and> pages three_tabs = [(asc ''page-0'', 10), (asc ''page-1'', 11), (asc ''page-2'', 12)]
    \<and> map_of (pages first_closed) (asc ''page-2'') = Some 12
    \<and> fst (createNewTab (Returns 13) None None first_closed) = Returns (asc ''page-2'')
    \<and> pages after_first_closed = [(asc ''page-1'', 11), (asc ''page-2'', 13)]
    \<and> (\<forall>i b. getCurrentPage (snd (switchTab b i after_first_closed)) \<noteq> Returns 12)
    \<and> (\<forall>i. map_of (pages after_first_closed) i \<noteq> Some 12)
    \<and> map_of (pages second_closed) (asc ''page-2'') = Some 12
    \<and> fst (createNewTab (Returns 13) None None second_closed) = Returns (asc ''page-2'')
    \<and> pages after_second_closed = [(asc ''page-0'', 10), (asc ''page-2'', 13)]
    \<and> (\<forall>i b. getCurrentPage (snd (switchTab b i after_second_closed)) \<noteq> Returns 12)
    \<and> (\<forall>i. map_of (pages after_second_closed) i \<noteq> Some 12)"
proof -
  have a: "pages (snd (createNewTab (Returns p) goto u bm)) =
           AList.update (asc ''page-'' @ decimal (length (pages bm))) p (pages bm)"
    using assms by (rule createNewTab_pages)
  have b: "goto = None \<longrightarrow>
         fst (createNewTab (Returns p) goto u bm) =
           Returns (asc ''page-'' @ decimal (length (pages bm)))"
    using assms createNewTab_result by blast
  have o: "\<forall>q. map_of (pages bm) (asc ''page-'' @ decimal (length (pages bm))) = Some q \<longrightarrow>
           map_of (pages (snd (createNewTab (Returns p) goto u bm)))
             (asc ''page-'' @ decimal (length (pages bm))) = Some p
         \<and> length (pages (snd (createNewTab (Returns p) goto u bm))) = length (pages bm)"
    unfolding a by (auto simp: update_conv' update_bound_key_length)
  have c: "pages three_tabs = [(asc ''page-0'', 10), (asc ''page-1'', 11), (asc ''page-2'', 12)]"
    by (simp add: three_tabs_eval)
  have d1: "map_of (pages first_closed) (asc ''page-2'') = Some 12" by code_simp
  have e1: "fst (createNewTab (Returns 13) None None first_closed) = Returns (asc ''page-2'')"
    by code_simp
  have f1: "pages after_first_closed = [(asc ''page-1'', 11), (asc ''page-2'', 13)]"
    by (simp add: after_first_closed_eval)
  have g1: "\<forall>i b. getCurrentPage (snd (switchTab b i after_first_closed)) \<noteq> Returns 12"
    using switchTab_reaches_registered [of _ _ after_first_closed 12] by (auto simp: f1)
  have h1: "\<forall>i. map_of (pages after_first_closed) i \<noteq> Some 12"
    unfolding f1 by simp
  have d2: "map_of (pages second_closed) (asc ''page-2'') = Some 12" by code_simp
  have e2: "fst (createNewTab (Returns 13) None None second_closed) = Returns (asc ''page-2'')"
    by code_simp
  have f2: "pages after_second_closed = [(asc ''page-0'', 10), (asc ''page-2'', 13)]"
    by (simp add: after_second_closed_eval)
  have g2: "\<forall>i b. getCurrentPage (snd (switchTab b i after_second_closed)) \<noteq> Returns 12"
    using switchTab_reaches_registered [of _ _ after_second_closed 12] by (auto simp: f2)
  have h2: "\<forall>i. map_of (pages after_second_closed) i \<noteq> Some 12"
    unfolding f2 by simp
  show ?thesis using a b o c d1 e1 f1 g1 h1 d2 e2 f2 g2 h2 by blast
qed

theorem createNewTab_reuses_bound_identifier_witness:
  "context_ready first_closed
   \<and> length (pages first_closed) = 2
   \<and> fst (createNewTab (Returns 13) None None first_closed) =
       Returns (asc ''page-'' @ decimal (length (pages first_closed)))
   \<and> map_of (pages first_closed) (asc ''page-'' @ decimal (length (pages first_closed))) = Some 12
   \<and> length (pages (snd (createNewTab (Returns 13) None None first_closed))) = 2
   \<and> (\<forall>i. map_of (pages after_first_closed) i \<noteq> Some 12)"
proof -
  have h: "context_ready first_closed" by code_simp
  have l: "length (pages first_closed) = 2" by code_simp
  have m: "map_of (pages first_closed) (asc ''page-'' @ decimal (length (pages first_closed))) = Some 12"
    by code_simp
  note t = createNewTab_reuses_bound_identifier [OF h, of 13 None None]
  have r: "fst (createNewTab (Returns 13) None None first_closed) =
       Returns (asc ''page-'' @ decimal (length (pages first_closed)))"
    using t by blast
  have "length (pages (snd (createNewTab (Returns 13) None None first_closed))) =
       length (pages first_closed)"
    using t m by blast
  then have n: "length (pages (snd (createNewTab (Returns 13) None None first_closed))) = 2"
    using l by simp
  have u: "\<forall>i. map_of (pages after_first_closed) i \<noteq> Some 12" using t by blast
  show ?thesis using h l m r n u by blast
qed

section \<open>Properties of the plan tracker\<close>

lemma executeTool_update_plan:
  "getCurrentPage (browserManager s) = Returns pg \<Longrightarrow>
   executeTool w cfg s (asc ''update_plan'') args =
     update_plan w cfg args (s\<lparr>events := events s @ [Dispatched (asc ''update_plan'') args]\<rparr>)"
  by (simp add: executeTool_def run_tool_def page_tools_def throwing_tools_def catching_tools_def
      asc_def Let_def)

lemma plan_steps_length: "length (plan_steps xs) = length xs"
  by (simp add: plan_steps_def)

lemma plan_steps_nth:
  "i < length xs \<Longrightarrow>
   plan_steps xs ! i =
     \<lparr>step_id = asc ''step-'' @ decimal (i + 1),
      step_description = arg_description (xs ! i),
      step_status = (if truthy (arg_status (xs ! i)) then the (arg_status (xs ! i))
                     else asc ''pending'')\<rparr>"
  by (simp add: plan_steps_def nth_enumerate_eq)

lemma update_plan_plan:
  assumes "arg_steps args = Some xs"
  shows "\<exists>plan. currentPlan (snd (update_plan w cfg args s)) = Some plan
     \<and> steps plan = plan_steps xs
     \<and> currentStepIndex plan = (case current_step_index args of Some i \<Rightarrow> i | None \<Rightarrow> 0)"
  using assms by (simp add: update_plan_def Let_def split: option.splits)

text \<open>
  Claim C4, amended. When the page check of the dispatcher passes and the request carries
  a step list of length N, the tracker afterwards holds a plan with exactly N steps; step
  \<open>i\<close> has the description of the request's step \<open>i\<close> and its status, or
  \<^verbatim>\<open>pending\<close> when the status is omitted or empty. The current step index is stored
  as the request gives it (0 when the request has none): it is not clamped.
\<close>

theorem update_plan_steps_match_index_as_given:
  assumes "getCurrentPage (browserManager s) = Returns pg"
    and "arg_steps args = Some xs"
  shows "\<exists>plan. currentPlan (snd (executeTool w cfg s (asc ''update_plan'') args)) = Some plan
     \<and> length (steps plan) = length xs
     \<and> (\<forall>i<length xs.
           step_description (steps plan ! i) = arg_description (xs ! i)
         \<and> step_status (steps plan ! i) =
             (case arg_status (xs ! i) of
                None \<Rightarrow> asc ''pending''
              | Some st \<Rightarrow> if st = [] then asc ''pending'' else st))
     \<and> currentStepIndex plan = (case current_step_index args of Some i \<Rightarrow> i | None \<Rightarrow> 0)"
proof -
  define s0 where "s0 = s\<lparr>events := events s @ [Dispatched (asc ''update_plan'') args]\<rparr>"
  obtain plan where p: "currentPlan (snd (update_plan w cfg args s0)) = Some plan"
      "steps plan = plan_steps xs"
      "currentStepIndex plan = (case current_step_index args of Some i \<Rightarrow> i | None \<Rightarrow> 0)"
    using update_plan_plan [OF assms(2)] by blast
  have e: "executeTool w cfg s (asc ''update_plan'') args = update_plan w cfg args s0"
    unfolding s0_def using assms(1) by (rule executeTool_update_plan)
  have "\<forall>i<length xs.
           step_description (steps plan ! i) = arg_description (xs ! i)
         \<and> step_status (steps plan ! i) =
             (case arg_status (xs ! i) of
                None \<Rightarrow> asc ''pending''
              | Some st \<Rightarrow> if st = [] then asc ''pending'' else st)"
    by (auto simp: p(2) plan_steps_nth truthy_def split: option.splits)
  then show ?thesis using p by (simp add: e plan_steps_length)
qed

theorem update_plan_steps_match_index_as_given_witness:
  "getCurrentPage (browserManager started_agent) = Returns 0
   \<and> arg_steps plan_request = Some [\<lparr>arg_description = asc ''Open the site'', arg_status = None\<rparr>]
   \<and> (\<exists>plan. currentPlan (snd (executeTool quiet_call default_config started_agent
                   (asc ''update_plan'') plan_request)) = Some plan
        \<and> length (steps plan) = 1
        \<and> step_status (steps plan ! 0) = asc ''pending''
        \<and> currentStepIndex plan = 5)"
proof -
  have h1: "getCurrentPage (browserManager started_agent) = Returns 0" by code_simp
  have h2: "arg_steps plan_request = Some [\<lparr>arg_description = asc ''Open the site'', arg_status = None\<rparr>]"
    by (simp add: plan_request_def)
  have h3: "current_step_index plan_request = Some 5" by (simp add: plan_request_def)
  show ?thesis
    using h1 h2 update_plan_steps_match_index_as_given [OF h1 h2, of quiet_call default_config]
    by (auto simp: h3)
qed

text \<open>
  The index is not clamped into the range of the steps: a request with one step and
  \<^verbatim>\<open>current_step_index\<close> 5 leaves the tracker with one step and the index 5.
\<close>

theorem update_plan_index_not_clamped:
  "length (steps (the (currentPlan (snd (executeTool quiet_call default_config started_agent
       (asc ''update_plan'') plan_request))))) = 1
   \<and> currentStepIndex (the (currentPlan (snd (executeTool quiet_call default_config started_agent
       (asc ''update_plan'') plan_request)))) = 5
   \<and> \<not> (0 \<le> currentStepIndex (the (currentPlan (snd (executeTool quiet_call default_config
            started_agent (asc ''update_plan'') plan_request))))
        \<and> currentStepIndex (the (currentPlan (snd (executeTool quiet_call default_config
            started_agent (asc ''update_plan'') plan_request))))
          < int (length (steps (the (currentPlan (snd (executeTool quiet_call default_config
              started_agent (asc ''update_plan'') plan_request)))))))"
  by code_simp

section \<open>Properties of the execution loop\<close>

lemma keeps_logs_refl [simp]: "keeps_logs s s"
  by (simp add: keeps_logs_def)

lemma keeps_logs_updates [simp]:
  "keeps_logs s (s\<lparr>currentElements := ce\<rparr>)"
  "keeps_logs s (s\<lparr>browserManager := bm\<rparr>)"
  "keeps_logs s (s\<lparr>isTaskComplete := b\<rparr>)"
  "keeps_logs s (s\<lparr>currentPlan := cp\<rparr>)"
  "keeps_logs s (s\<lparr>currentPlan := cp, visualizerPlan := vp\<rparr>)"
  by (simp_all add: keeps_logs_def)

lemma keeps_logs_trans: "keeps_logs s s1 \<Longrightarrow> keeps_logs s1 s2 \<Longrightarrow> keeps_logs s s2"
  by (simp add: keeps_logs_def)

lemma note_call_keeps_logs: "keeps_logs s (note_call n args s)"
  by (simp add: keeps_logs_def note_call_def)

lemma update_plan_keeps_logs: "keeps_logs s (snd (update_plan w cfg args s))"
  by (simp add: update_plan_def keeps_logs_def Let_def split: option.splits)

lemma get_page_content_keeps_logs: "keeps_logs s (snd (get_page_content w args s))"
  by (simp add: get_page_content_def keeps_logs_def note_call_def Let_def split: outcome.splits)

lemma find_element_keeps_logs: "keeps_logs s (snd (find_element w args s))"
  by (simp add: find_element_def keeps_logs_def note_call_def Let_def
      split: outcome.splits option.splits)

lemma new_tab_keeps_logs: "keeps_logs s (snd (new_tab w args s))"
  by (simp add: new_tab_def keeps_logs_def note_call_def Let_def split: prod.splits outcome.splits)

lemma switch_tab_keeps_logs: "keeps_logs s (snd (switch_tab w args s))"
  by (simp add: switch_tab_def keeps_logs_def note_call_def Let_def
      split: prod.splits outcome.splits option.splits)

lemma close_tab_keeps_logs: "keeps_logs s (snd (close_tab w args s))"
  by (simp add: close_tab_def keeps_logs_def note_call_def Let_def
      split: prod.splits outcome.splits option.splits)

lemma complete_task_keeps_logs: "keeps_logs s (snd (complete_task cfg args s))"
  by (simp add: complete_task_def keeps_logs_def Let_def split: option.splits)

lemma run_tool_keeps_logs: "keeps_logs s (snd (run_tool w cfg s n args))"
  by (simp add: run_tool_def update_plan_keeps_logs get_page_content_keeps_logs
      find_element_keeps_logs new_tab_keeps_logs switch_tab_keeps_logs close_tab_keeps_logs
      complete_task_keeps_logs note_call_keeps_logs)

lemma executeTool_keeps_logs: "keeps_logs s (snd (executeTool w cfg s n args))"
proof -
  define s0 where "s0 = s\<lparr>events := events s @ [Dispatched n args]\<rparr>"
  have a: "keeps_logs s s0" by (simp add: keeps_logs_def s0_def)
  have b: "keeps_logs s0 (snd (run_tool w cfg s0 n args))" by (rule run_tool_keeps_logs)
  have "keeps_logs s (snd (run_tool w cfg s0 n args))" using a b by (rule keeps_logs_trans)
  then show ?thesis
    using a by (simp add: executeTool_def Let_def s0_def [symmetric] split: outcome.splits)
qed

lemma update_plan_same_flag:
  "isTaskComplete (snd (update_plan w cfg args s)) = isTaskComplete s"
  by (simp add: update_plan_def Let_def split: option.splits)

lemma get_page_content_same_flag:
  "isTaskComplete (snd (get_page_content w args s)) = isTaskComplete s"
  by (simp add: get_page_content_def note_call_def Let_def split: outcome.splits)

lemma find_element_same_flag: "isTaskComplete (snd (find_element w args s)) = isTaskComplete s"
  by (simp add: find_element_def note_call_def Let_def split: outcome.splits option.splits)

lemma new_tab_same_flag: "isTaskComplete (snd (new_tab w args s)) = isTaskComplete s"
  by (simp add: new_tab_def note_call_def Let_def split: prod.splits outcome.splits)

lemma switch_tab_same_flag: "isTaskComplete (snd (switch_tab w args s)) = isTaskComplete s"
  by (simp add: switch_tab_def note_call_def Let_def
      split: prod.splits outcome.splits option.splits)

lemma close_tab_same_flag: "isTaskComplete (snd (close_tab w args s)) = isTaskComplete s"
  by (simp add: close_tab_def note_call_def Let_def
      split: prod.splits outcome.splits option.splits)

lemma run_tool_same_flag:
  "n \<noteq> asc ''complete_task'' \<Longrightarrow> isTaskComplete (snd (run_tool w cfg s n args)) = isTaskComplete s"
  by (simp add: run_tool_def update_plan_same_flag get_page_content_same_flag
      find_element_same_flag new_tab_same_flag switch_tab_same_flag close_tab_same_flag
      note_call_def)

lemma executeTool_same_flag:
  "n \<noteq> asc ''complete_task'' \<Longrightarrow> isTaskComplete (snd (executeTool w cfg s n args)) = isTaskComplete s"
  by (simp add: executeTool_def run_tool_same_flag Let_def split: outcome.splits)

lemma dispatched_names_append [simp]:
  "dispatched_names (xs @ ys) = dispatched_names xs @ dispatched_names ys"
  by (induction xs rule: dispatched_names.induct) simp_all

lemma world_calls_append [simp]: "world_calls (xs @ ys) = world_calls xs @ world_calls ys"
  by (induction xs rule: world_calls.induct) simp_all

lemma task_events_append: "events s' = events s @ new \<Longrightarrow> task_events s s' = new"
  by (simp add: task_events_def)

lemma advancesI:
  "events s' = events s @ new \<Longrightarrow>
   (isTaskComplete s' \<Longrightarrow> isTaskComplete s \<or> asc ''complete_task'' \<in> set (dispatched_names new)) \<Longrightarrow>
   advances s s'"
  by (auto simp: advances_def task_events_def)

lemma advancesD:
  "advances s s' \<Longrightarrow>
   \<exists>new. events s' = events s @ new
     \<and> (isTaskComplete s' \<longrightarrow>
          isTaskComplete s \<or> asc ''complete_task'' \<in> set (dispatched_names new))"
  by (auto simp: advances_def task_events_def prefix_def)

lemma advances_refl: "advances s s"
  by (rule advancesI [where new = "[]"]) simp_all

lemma advances_same:
  "events s' = events s \<Longrightarrow> isTaskComplete s' = isTaskComplete s \<Longrightarrow> advances s s'"
  by (rule advancesI [where new = "[]"]) simp_all

lemma advances_trans:
  assumes "advances s s1" and "advances s1 s2"
  shows "advances s s2"
proof -
  obtain n1 where a: "events s1 = events s @ n1"
      "isTaskComplete s1 \<longrightarrow>
         isTaskComplete s \<or> asc ''complete_task'' \<in> set (dispatched_names n1)"
    using advancesD [OF assms(1)] by blast
  obtain n2 where b: "events s2 = events s1 @ n2"
      "isTaskComplete s2 \<longrightarrow>
         isTaskComplete s1 \<or> asc ''complete_task'' \<in> set (dispatched_names n2)"
    using advancesD [OF assms(2)] by blast
  show ?thesis
  proof (rule advancesI [where new = "n1 @ n2"])
    show "events s2 = events s @ n1 @ n2" using a(1) b(1) by simp
    show "isTaskComplete s \<or> asc ''complete_task'' \<in> set (dispatched_names (n1 @ n2))"
      if "isTaskComplete s2"
      using that a(2) b(2) by auto
  qed
qed

lemma update_plan_events: "events (snd (update_plan w cfg args s)) = events s"
  by (simp add: update_plan_def Let_def split: option.splits)

lemma complete_task_events: "events (snd (complete_task cfg args s)) = events s"
  by (simp add: complete_task_def Let_def split: option.splits)

lemma get_page_content_events:
  "prefix (events s) (events (snd (get_page_content w args s)))"
  by (simp add: get_page_content_def note_call_def Let_def split: outcome.splits)

lemma find_element_events: "prefix (events s) (events (snd (find_element w args s)))"
  by (simp add: find_element_def note_call_def Let_def split: outcome.splits option.splits)

lemma new_tab_events: "prefix (events s) (events (snd (new_tab w args s)))"
  by (simp add: new_tab_def note_call_def Let_def split: prod.splits outcome.splits)

lemma switch_tab_events: "prefix (events s) (events (snd (switch_tab w args s)))"
  by (simp add: switch_tab_def note_call_def Let_def
      split: prod.splits outcome.splits option.splits)

lemma close_tab_events: "prefix (events s) (events (snd (close_tab w args s)))"
  by (simp add: close_tab_def note_call_def Let_def
      split: prod.splits outcome.splits option.splits)

lemma run_tool_events: "prefix (events s) (events (snd (run_tool w cfg s n args)))"
  by (simp add: run_tool_def update_plan_events complete_task_events get_page_content_events
      find_element_events new_tab_events switch_tab_events close_tab_events note_call_def)

lemma run_tool_page_tool:
  "n \<in> set page_tools \<Longrightarrow>
   run_tool w cfg s n args = (page_tool w n args, s\<lparr>events := events s @ [WorldCall n args]\<rparr>)"
  by (simp add: run_tool_def note_call_def)

lemma executeTool_events:
  "\<exists>rest. events (snd (executeTool w cfg s n args)) = events s @ Dispatched n args # rest"
proof -
  define s0 where "s0 = s\<lparr>events := events s @ [Dispatched n args]\<rparr>"
  have "prefix (events s0) (events (snd (run_tool w cfg s0 n args)))" by (rule run_tool_events)
  then obtain rest where "events (snd (run_tool w cfg s0 n args)) = events s0 @ rest"
    by (auto simp: prefix_def)
  then have r: "events (snd (run_tool w cfg s0 n args)) = events s @ Dispatched n args # rest"
    by (simp add: s0_def)
  have ev0: "events s0 = events s @ [Dispatched n args]" by (simp add: s0_def)
  show ?thesis
  proof (cases "getCurrentPage (browserManager s)")
    case (Throws e)
    then have "executeTool w cfg s n args = (Throws e, s0)"
      by (simp add: executeTool_def Let_def s0_def)
    then show ?thesis using ev0 by simp
  next
    case (Returns pg)
    then have "executeTool w cfg s n args = run_tool w cfg s0 n args"
      by (simp add: executeTool_def Let_def s0_def)
    then show ?thesis using r by simp
  qed
qed

lemma executeTool_page_tool_events:
  "getCurrentPage (browserManager s) = Returns pg \<Longrightarrow> n \<in> set page_tools \<Longrightarrow>
   events (snd (executeTool w cfg s n args)) = events s @ [Dispatched n args, WorldCall n args]"
  by (simp add: executeTool_def Let_def run_tool_page_tool)

lemma executeTool_advances: "advances s (snd (executeTool w cfg s n args))"
proof -
  obtain rest where e: "events (snd (executeTool w cfg s n args)) = events s @ Dispatched n args # rest"
    using executeTool_events by blast
  show ?thesis
  proof (rule advancesI [OF e])
    show "isTaskComplete s \<or> asc ''complete_task'' \<in> set (dispatched_names (Dispatched n args # rest))"
      if "isTaskComplete (snd (executeTool w cfg s n args))"
      using that executeTool_same_flag [of n w cfg s args] by (cases "n = asc ''complete_task''") auto
  qed
qed

lemma dispatch_events:
  "\<exists>rest. events (dispatch w cfg i tc args s) = events s @ Dispatched (tc_name tc) args # rest"
  using executeTool_events [of w cfg s "tc_name tc" args]
  by (cases "executeTool w cfg s (tc_name tc) args") (simp add: dispatch_def push_def Let_def)

lemma dispatch_page_tool_events:
  "getCurrentPage (browserManager s) = Returns pg \<Longrightarrow> tc_name tc \<in> set page_tools \<Longrightarrow>
   events (dispatch w cfg i tc args s) =
     events s @ [Dispatched (tc_name tc) args, WorldCall (tc_name tc) args]"
  using executeTool_page_tool_events [of s pg "tc_name tc" w cfg args]
  by (cases "executeTool w cfg s (tc_name tc) args") (simp add: dispatch_def push_def Let_def)

lemma dispatch_advances: "advances s (dispatch w cfg i tc args s)"
proof -
  obtain r s1 where e: "executeTool w cfg s (tc_name tc) args = (r, s1)"
    by (cases "executeTool w cfg s (tc_name tc) args")
  have a: "advances s s1" using executeTool_advances [of s w cfg "tc_name tc" args] e by simp
  have b: "advances s1 (dispatch w cfg i tc args s)"
    using e by (intro advances_same) (simp_all add: dispatch_def push_def Let_def)
  show ?thesis using a b by (rule advances_trans)
qed

lemma confirmAction_advances: "advances s (snd (confirmAction lc w s n args))"
  by (rule advances_same) (simp_all add: confirmAction_def Let_def split: outcome.splits)

lemma push_advances: "advances s (push m s)"
  by (rule advances_same) (simp_all add: push_def)

lemma process_tool_call_advances: "advances s (snd (process_tool_call lc cfg w i tc s))"
proof (cases "tc_arguments tc")
  case (ArgsInvalid e)
  then show ?thesis by (simp add: process_tool_call_def advances_refl)
next
  case (Args args)
  obtain r s1 where c: "confirmAction lc w s (tc_name tc) args = (r, s1)"
    by (cases "confirmAction lc w s (tc_name tc) args")
  have s1: "advances s s1"
    using confirmAction_advances [of s lc w "tc_name tc" args] c by simp
  have d: "advances s (dispatch w cfg i tc args s)" by (rule dispatch_advances)
  have d1: "advances s (dispatch w cfg i tc args s1)"
    using s1 dispatch_advances by (rule advances_trans)
  have p: "advances s (push (ToolMsg (tc_id tc) (Some (asc ''Action cancelled by user''))) s1)"
    using s1 push_advances by (rule advances_trans)
  show ?thesis
    using Args c s1 d d1 p
    by (simp add: process_tool_call_def advances_refl split: outcome.splits bool.splits)
qed

lemma process_tool_calls_advances:
  "advances s (snd (process_tool_calls lc cfg cw i k tcs s))"
proof (induction tcs arbitrary: s k)
  case Nil
  then show ?case by (simp add: advances_refl)
next
  case (Cons tc tcs)
  obtain r s1 where p: "process_tool_call lc cfg (cw k) i tc s = (r, s1)"
    by (cases "process_tool_call lc cfg (cw k) i tc s")
  have a: "advances s s1"
    using process_tool_call_advances [of s lc cfg "cw k" i tc] p by simp
  show ?case
  proof (cases r)
    case (Throws e)
    then show ?thesis using a p by simp
  next
    case (Returns u)
    have "advances s1 (snd (process_tool_calls lc cfg cw i (Suc k) tcs s1))" by (rule Cons.IH)
    with a have "advances s (snd (process_tool_calls lc cfg cw i (Suc k) tcs s1))"
      by (rule advances_trans)
    then show ?thesis using p Returns by simp
  qed
qed

lemma try_block_advances: "advances s (snd (try_block lc cfg w i s))"
proof (cases "w_llm w")
  case (Message content calls)
  have a: "advances s (push (AssistantMsg content calls) s)" by (rule push_advances)
  have "advances (push (AssistantMsg content calls) s)
     (snd (process_tool_calls lc cfg (w_calls w) i 0 calls (push (AssistantMsg content calls) s)))"
    by (rule process_tool_calls_advances)
  with a have "advances s
     (snd (process_tool_calls lc cfg (w_calls w) i 0 calls (push (AssistantMsg content calls) s)))"
    by (rule advances_trans)
  then show ?thesis using Message a by (simp add: try_block_def Let_def push_advances)
qed (simp_all add: try_block_def advances_refl)

lemma run_iteration_advances: "advances s (run_iteration lc cfg w i s)"
proof -
  obtain r s1 where t: "try_block lc cfg w i s = (r, s1)" by (cases "try_block lc cfg w i s")
  have a: "advances s s1" using try_block_advances [of s lc cfg w i] t by simp
  have b: "advances s (push (corrective e) s1)" for e
    using a push_advances by (rule advances_trans)
  show ?thesis using a b t by (cases r) (simp_all add: run_iteration_def)
qed

lemma run_iterations_advances: "advances s (run_iterations lc cfg w n s)"
proof (induction n)
  case 0
  then show ?case by (simp add: advances_refl)
next
  case (Suc n)
  then show ?case using run_iteration_advances by (auto intro: advances_trans)
qed

lemma dispatch_conversation:
  "\<exists>r. conversationHistory (dispatch w cfg i tc args s) = conversationHistory s @ [ToolMsg (tc_id tc) r]"
  using executeTool_keeps_logs [of s w cfg "tc_name tc" args]
  by (cases "executeTool w cfg s (tc_name tc) args")
     (simp add: dispatch_def push_def Let_def keeps_logs_def)

lemma confirmAction_conversation:
  "conversationHistory (snd (confirmAction lc w s n args)) = conversationHistory s"
  by (simp add: confirmAction_def Let_def split: outcome.splits)

lemma dispatch_prefix:
  "conversationHistory s' = conversationHistory s \<Longrightarrow>
   prefix (conversationHistory s) (conversationHistory (dispatch w cfg i tc args s'))"
  using dispatch_conversation [of w cfg i tc args s'] by auto

lemma process_tool_call_conversation:
  "prefix (conversationHistory s) (conversationHistory (snd (process_tool_call lc cfg w i tc s)))"
proof (cases "tc_arguments tc")
  case (ArgsInvalid e)
  then show ?thesis by (simp add: process_tool_call_def)
next
  case (Args args)
  obtain r s1 where c: "confirmAction lc w s (tc_name tc) args = (r, s1)"
    by (cases "confirmAction lc w s (tc_name tc) args")
  have s1: "conversationHistory s1 = conversationHistory s"
    using confirmAction_conversation [of lc w s "tc_name tc" args] c by simp
  have d: "prefix (conversationHistory s) (conversationHistory (dispatch w cfg i tc args s))"
    by (rule dispatch_prefix) simp
  have d1: "prefix (conversationHistory s) (conversationHistory (dispatch w cfg i tc args s1))"
    using s1 by (rule dispatch_prefix)
  show ?thesis
    using Args c s1 d d1
    by (simp add: process_tool_call_def push_def split: outcome.splits bool.splits)
qed

lemma process_tool_calls_conversation:
  "prefix (conversationHistory s) (conversationHistory (snd (process_tool_calls lc cfg cw i k tcs s)))"
proof (induction tcs arbitrary: s k)
  case Nil
  then show ?case by simp
next
  case (Cons tc tcs)
  obtain r s1 where p: "process_tool_call lc cfg (cw k) i tc s = (r, s1)"
    by (cases "process_tool_call lc cfg (cw k) i tc s")
  have a: "prefix (conversationHistory s) (conversationHistory s1)"
    using process_tool_call_conversation [of s lc cfg "cw k" i tc] p by simp
  show ?case
  proof (cases r)
    case (Throws e)
    then show ?thesis using a p by simp
  next
    case (Returns u)
    have "prefix (conversationHistory s1)
            (conversationHistory (snd (process_tool_calls lc cfg cw i (Suc k) tcs s1)))"
      by (rule Cons.IH)
    then show ?thesis using a p Returns by (auto intro: prefix_order.trans)
  qed
qed

lemma try_block_conversation:
  "prefix (conversationHistory s) (conversationHistory (snd (try_block lc cfg w i s)))"
proof (cases "w_llm w")
  case (Message content calls)
  have "prefix (conversationHistory s) (conversationHistory (push (AssistantMsg content calls) s))"
    by (simp add: push_def)
  moreover have "prefix (conversationHistory (push (AssistantMsg content calls) s))
     (conversationHistory (snd (process_tool_calls lc cfg (w_calls w) i 0 calls
         (push (AssistantMsg content calls) s))))"
    by (rule process_tool_calls_conversation)
  ultimately show ?thesis
    using Message by (auto simp: try_block_def Let_def intro: prefix_order.trans)
qed (simp_all add: try_block_def)

lemma run_iteration_conversation:
  "prefix (conversationHistory s) (conversationHistory (run_iteration lc cfg w i s))"
proof -
  obtain r s1 where t: "try_block lc cfg w i s = (r, s1)" by (cases "try_block lc cfg w i s")
  have a: "prefix (conversationHistory s) (conversationHistory s1)"
    using try_block_conversation [of s lc cfg w i] t by simp
  show ?thesis
    using a t by (cases r) (auto simp: run_iteration_def push_def intro: prefix_order.trans)
qed

lemma executeLoop_conversation:
  "prefix (conversationHistory s) (conversationHistory (fst (executeLoop lc cfg w i s)))"
proof (induction lc cfg w i s rule: executeLoop.induct)
  case (1 lc cfg w iteration s)
  show ?case
  proof (cases "\<not> isTaskComplete s \<and> int iteration < maxIterations cfg")
    case True
    have "prefix (conversationHistory s)
            (conversationHistory (run_iteration lc cfg (w (Suc iteration)) (Suc iteration) s))"
      by (rule run_iteration_conversation)
    then show ?thesis
      using True "1.IH" [OF True] by (subst executeLoop.simps) (auto intro: prefix_order.trans)
  next
    case False
    then show ?thesis by (subst executeLoop.simps) auto
  qed
qed

lemma executeTask_conversation:
  "prefix (conversationHistory s) (conversationHistory (final (executeTask lc cfg w task s)))"
proof -
  define s3 where "s3 = (let s1 = push (UserMsg task) s;
          plan = \<lparr>goal = task, steps = [], currentStepIndex = 0, adaptations = [],
                  completionCriteria = []\<rparr>;
          s2 = (if showPlanVisualization cfg
                then s1\<lparr>currentPlan := Some plan, visualizerPlan := Some plan\<rparr> else s1)
      in s2\<lparr>isTaskComplete := False, confirmedActions := {}\<rparr>)"
  have a: "prefix (conversationHistory s) (conversationHistory s3)"
    by (simp add: s3_def push_def Let_def)
  have b: "prefix (conversationHistory s3) (conversationHistory (fst (executeLoop lc cfg w 0 s3)))"
    by (rule executeLoop_conversation)
  have "final (executeTask lc cfg w task s) = fst (executeLoop lc cfg w 0 s3)"
    by (simp add: executeTask_def task_start_def s3_def Let_def split: prod.splits)
  then show ?thesis using a b by (auto intro: prefix_order.trans)
qed

lemma run_session_conversation:
  "prefix (conversationHistory s) (conversationHistory (run_session lc cfg tasks s))"
proof (induction tasks arbitrary: s)
  case Nil
  then show ?case by simp
next
  case (Cons a tasks)
  obtain task w where a: "a = (task, w)" by (cases a)
  show ?case
    using Cons.IH [of "final (executeTask lc cfg w task s)"] executeTask_conversation [of s lc cfg w task]
    by (auto simp: a intro: prefix_order.trans)
qed

text \<open>
  Claim C8. The conversation before a step is a prefix of the conversation after it, for
  \<open>initialize\<close>, for every iteration of the loop, for every task and for every
  sequence of tasks of a session: entries are only appended, so the length never
  decreases and every existing entry keeps its position and content.
\<close>

theorem conversation_append_only:
  "prefix (conversationHistory s) (conversationHistory (initialize system_prompt p s))
   \<and> prefix (conversationHistory s) (conversationHistory (run_iteration lc cfg iw i s))
   \<and> prefix (conversationHistory s) (conversationHistory (final (executeTask lc cfg w task s)))
   \<and> prefix (conversationHistory s) (conversationHistory (run_session lc cfg tasks s))
   \<and> length (conversationHistory s) \<le> length (conversationHistory (run_session lc cfg tasks s))
   \<and> take (length (conversationHistory s)) (conversationHistory (run_session lc cfg tasks s))
       = conversationHistory s"
proof -
  have i: "prefix (conversationHistory s) (conversationHistory (initialize system_prompt p s))"
    by (simp add: initialize_def push_def)
  have r: "prefix (conversationHistory s) (conversationHistory (run_session lc cfg tasks s))"
    by (rule run_session_conversation)
  then have "length (conversationHistory s) \<le> length (conversationHistory (run_session lc cfg tasks s))"
    by (rule prefix_length_le)
  moreover have "take (length (conversationHistory s)) (conversationHistory (run_session lc cfg tasks s))
       = conversationHistory s"
    using r by (auto simp: prefix_def)
  ultimately show ?thesis
    using i r run_iteration_conversation executeTask_conversation by blast
qed

lemma corrective_no_tool_calls:
  "corrective (asc ''Model did not return tool calls as required'') =
   UserMsg (asc ''An error occurred: Model did not return tool calls as required. Please try a different approach.'')"
  by (simp add: corrective_def asc_def)

lemma run_iteration_no_tool_calls:
  "w_llm iw = Message content [] \<Longrightarrow>
   run_iteration lc cfg iw i s =
     s\<lparr>conversationHistory := conversationHistory s @
         [AssistantMsg content [],
          corrective (asc ''Model did not return tool calls as required'')]\<rparr>"
  by (simp add: run_iteration_def try_block_def push_def Let_def)

text \<open>
  Claim C6. In an iteration whose decision has no tool calls the loop does not abort:
  the iteration appends the model's message and exactly one user-role entry, the
  corrective note, and changes nothing else; the completion flag stays unset and the loop
  goes on with the next iteration from that state.
\<close>

theorem no_tool_calls_appends_corrective_and_continues:
  assumes "w_llm (w (Suc n)) = Message content []"
    and "\<not> isTaskComplete s"
    and "int n < maxIterations cfg"
  shows "run_iteration lc cfg (w (Suc n)) (Suc n) s =
           s\<lparr>conversationHistory := conversationHistory s @
               [AssistantMsg content [],
                UserMsg (asc ''An error occurred: Model did not return tool calls as required. Please try a different approach.'')]\<rparr>
       \<and> \<not> isTaskComplete (run_iteration lc cfg (w (Suc n)) (Suc n) s)
       \<and> executeLoop lc cfg w n s =
           executeLoop lc cfg w (Suc n) (run_iteration lc cfg (w (Suc n)) (Suc n) s)"
proof -
  have r: "run_iteration lc cfg (w (Suc n)) (Suc n) s =
           s\<lparr>conversationHistory := conversationHistory s @
               [AssistantMsg content [],
                UserMsg (asc ''An error occurred: Model did not return tool calls as required. Please try a different approach.'')]\<rparr>"
    using run_iteration_no_tool_calls [OF assms(1)] corrective_no_tool_calls by simp
  have c: "\<not> isTaskComplete (run_iteration lc cfg (w (Suc n)) (Suc n) s)"
    by (subst r) (simp add: assms(2))
  have l: "executeLoop lc cfg w n s =
           executeLoop lc cfg w (Suc n) (run_iteration lc cfg (w (Suc n)) (Suc n) s)"
    using assms(2,3) by (subst executeLoop.simps) simp
  show ?thesis using r c l by blast
qed

theorem no_tool_calls_appends_corrective_and_continues_witness:
  "w_llm (silent_model (Suc 0)) = Message (Some (asc ''Done.'')) []
   \<and> \<not> isTaskComplete started_agent
   \<and> int 0 < maxIterations default_config
   \<and> conversationHistory (run_iteration ascii_lower default_config (silent_model (Suc 0)) (Suc 0)
         started_agent) =
       conversationHistory started_agent @
         [AssistantMsg (Some (asc ''Done.'')) [],
          UserMsg (asc ''An error occurred: Model did not return tool calls as required. Please try a different approach.'')]
   \<and> executeLoop ascii_lower default_config silent_model 0 started_agent =
       executeLoop ascii_lower default_config silent_model (Suc 0)
         (run_iteration ascii_lower default_config (silent_model (Suc 0)) (Suc 0) started_agent)"
proof -
  have h1: "w_llm (silent_model (Suc 0)) = Message (Some (asc ''Done.'')) []"
    by (simp add: silent_model_def)
  have h2: "\<not> isTaskComplete started_agent" by code_simp
  have h3: "int 0 < maxIterations default_config" by code_simp
  show ?thesis
    using h1 h2 h3
      no_tool_calls_appends_corrective_and_continues
        [where w = silent_model and n = 0 and lc = ascii_lower, OF h1 h2 h3]
    by simp
qed

lemma build_context_answer:
  "build_context (w\<lparr>w_confirmed := b\<rparr>) s pg n args = build_context w s pg n args"
  by (simp add: build_context_def Let_def)

lemma shouldConfirm_answer:
  "shouldConfirm lc (w\<lparr>w_confirmed := b\<rparr>) s n args = shouldConfirm lc w s n args"
  by (cases "getCurrentPage (browserManager s)")
     (simp_all add: shouldConfirm_def build_context_answer)

lemma confirmAction_approved:
  "getCurrentPage (browserManager s) = Returns pg \<Longrightarrow> w_confirmed w \<Longrightarrow>
   \<exists>s1. confirmAction lc w s n args = (Returns True, s1) \<and> events s1 = events s
        \<and> browserManager s1 = browserManager s"
  by (simp add: confirmAction_def Let_def)

text \<open>
  Claim C9. When the gate asks (\<open>shouldConfirm\<close> returns true) and the user answers no,
  the tool call ends without dispatch: the agent is the one before the call with one
  tool-result entry \<^verbatim>\<open>Action cancelled by user\<close> appended to the conversation (and
  the prompt added to the record of prompts shown). The confirmed-action set, the plan,
  the element cache, the completion flag, the tab registry and the action history are
  unchanged, and so is the record of events: \<open>executeTool\<close> is not called and no call
  on the page is made. The same call answered with yes is dispatched: its record of
  events continues with the dispatch of the tool and, for a tool that drives the page,
  with the call on the page.
\<close>

theorem denial_appends_cancelled_entry_only:
  assumes "tc_arguments tc = Args args"
    and "requireConfirmation cfg"
    and "shouldConfirm lc w s (tc_name tc) args = Returns True"
    and "\<not> w_confirmed w"
  shows "(\<exists>shown. process_tool_call lc cfg w i tc s =
           (Returns (),
            s\<lparr>conversationHistory := conversationHistory s @
                 [ToolMsg (tc_id tc) (Some (asc ''Action cancelled by user''))],
              prompts := prompts s @ [shown]\<rparr>)
         \<and> \<not> p_approved shown)
     \<and> confirmedActions (snd (process_tool_call lc cfg w i tc s)) = confirmedActions s
     \<and> currentPlan (snd (process_tool_call lc cfg w i tc s)) = currentPlan s
     \<and> currentElements (snd (process_tool_call lc cfg w i tc s)) = currentElements s
     \<and> isTaskComplete (snd (process_tool_call lc cfg w i tc s)) = isTaskComplete s
     \<and> browserManager (snd (process_tool_call lc cfg w i tc s)) = browserManager s
     \<and> actionHistory (snd (process_tool_call lc cfg w i tc s)) = actionHistory s
     \<and> events (snd (process_tool_call lc cfg w i tc s)) = events s
     \<and> (\<exists>rest. events (snd (process_tool_call lc cfg (w\<lparr>w_confirmed := True\<rparr>) i tc s)) =
           events s @ Dispatched (tc_name tc) args # rest)
     \<and> (tc_name tc \<in> set page_tools \<longrightarrow>
          events (snd (process_tool_call lc cfg (w\<lparr>w_confirmed := True\<rparr>) i tc s)) =
            events s @ [Dispatched (tc_name tc) args, WorldCall (tc_name tc) args])"
proof -
  obtain pg where pg: "getCurrentPage (browserManager s) = Returns pg"
    using assms(3) by (cases "getCurrentPage (browserManager s)") (simp_all add: shouldConfirm_def)
  define shown where
    "shown = \<lparr>p_tool = tc_name tc,
       p_text = key_text (build_context w s pg (tc_name tc) args),
       p_category = category (assessAction lc (build_context w s pg (tc_name tc) args)),
       p_message = generateConfirmationMessage
         (assessAction lc (build_context w s pg (tc_name tc) args))
         (build_context w s pg (tc_name tc) args),
       p_approved = False\<rparr>"
  have e: "process_tool_call lc cfg w i tc s =
           (Returns (),
            s\<lparr>conversationHistory := conversationHistory s @
                 [ToolMsg (tc_id tc) (Some (asc ''Action cancelled by user''))],
              prompts := prompts s @ [shown]\<rparr>)"
    using assms pg
    by (simp add: process_tool_call_def confirmAction_def push_def Let_def shown_def)
  have n: "\<not> p_approved shown" by (simp add: shown_def)
  have f: "confirmedActions (snd (process_tool_call lc cfg w i tc s)) = confirmedActions s
     \<and> currentPlan (snd (process_tool_call lc cfg w i tc s)) = currentPlan s
     \<and> currentElements (snd (process_tool_call lc cfg w i tc s)) = currentElements s
     \<and> isTaskComplete (snd (process_tool_call lc cfg w i tc s)) = isTaskComplete s
     \<and> browserManager (snd (process_tool_call lc cfg w i tc s)) = browserManager s
     \<and> actionHistory (snd (process_tool_call lc cfg w i tc s)) = actionHistory s
     \<and> events (snd (process_tool_call lc cfg w i tc s)) = events s"
    by (subst e)+ simp
  define w1 where "w1 = w\<lparr>w_confirmed := True\<rparr>"
  have sc: "shouldConfirm lc w1 s (tc_name tc) args = Returns True"
    using assms(3) by (simp add: w1_def shouldConfirm_answer)
  obtain s1 where s1: "confirmAction lc w1 s (tc_name tc) args = (Returns True, s1)"
      "events s1 = events s" "browserManager s1 = browserManager s"
    using confirmAction_approved [OF pg, of w1 lc "tc_name tc" args] by (auto simp: w1_def)
  have a: "process_tool_call lc cfg w1 i tc s = (Returns (), dispatch w1 cfg i tc args s1)"
    using assms(1,2) sc s1(1) by (simp add: process_tool_call_def)
  have d: "\<exists>rest. events (snd (process_tool_call lc cfg w1 i tc s)) =
           events s @ Dispatched (tc_name tc) args # rest"
    using dispatch_events [of w1 cfg i tc args s1] by (simp add: a s1(2))
  have p: "tc_name tc \<in> set page_tools \<longrightarrow>
          events (snd (process_tool_call lc cfg w1 i tc s)) =
            events s @ [Dispatched (tc_name tc) args, WorldCall (tc_name tc) args]"
    using dispatch_page_tool_events [of s1 pg tc w1 cfg i args] pg
    by (simp add: a s1(2) s1(3))
  show ?thesis using e n f d p unfolding w1_def by blast
qed

theorem denial_appends_cancelled_entry_only_witness:
  "tc_arguments click_delete = Args (no_args\<lparr>element_id := Some (asc ''el-1'')\<rparr>)
   \<and> requireConfirmation default_config
   \<and> shouldConfirm ascii_lower quiet_call agent_with_button (tc_name click_delete)
        (no_args\<lparr>element_id := Some (asc ''el-1'')\<rparr>) = Returns True
   \<and> \<not> w_confirmed quiet_call
   \<and> tc_name click_delete \<in> set page_tools
   \<and> (\<exists>shown. process_tool_call ascii_lower default_config quiet_call 1 click_delete agent_with_button =
           (Returns (),
            agent_with_button\<lparr>conversationHistory := conversationHistory agent_with_button @
                 [ToolMsg (tc_id click_delete) (Some (asc ''Action cancelled by user''))],
              prompts := prompts agent_with_button @ [shown]\<rparr>)
         \<and> \<not> p_approved shown)
   \<and> confirmedActions (snd (process_tool_call ascii_lower default_config quiet_call 1 click_delete
         agent_with_button)) = confirmedActions agent_with_button
   \<and> events (snd (process_tool_call ascii_lower default_config quiet_call 1 click_delete
         agent_with_button)) = events agent_with_button
   \<and> events (snd (process_tool_call ascii_lower default_config (quiet_call\<lparr>w_confirmed := True\<rparr>)
         1 click_delete agent_with_button)) =
       events agent_with_button
       @ [Dispatched (tc_name click_delete) (no_args\<lparr>element_id := Some (asc ''el-1'')\<rparr>),
          WorldCall (tc_name click_delete) (no_args\<lparr>element_id := Some (asc ''el-1'')\<rparr>)]"
proof -
  have h1: "tc_arguments click_delete = Args (no_args\<lparr>element_id := Some (asc ''el-1'')\<rparr>)"
    by (simp add: click_delete_def)
  have h2: "requireConfirmation default_config" by code_simp
  have h3: "shouldConfirm ascii_lower quiet_call agent_with_button (tc_name click_delete)
        (no_args\<lparr>element_id := Some (asc ''el-1'')\<rparr>) = Returns True"
    by code_simp
  have h4: "\<not> w_confirmed quiet_call" by (simp add: quiet_call_def)
  have h5: "tc_name click_delete \<in> set page_tools"
    by (simp add: click_delete_def page_tools_def)
  show ?thesis
    using h1 h2 h3 h4 h5 denial_appends_cancelled_entry_only [OF h1 h2 h3 h4, of 1]
    by blast
qed

lemma executeLoop_invariant:
  "(\<forall>i s. P s \<longrightarrow> P (run_iteration lc cfg (w i) i s)) \<Longrightarrow> P s \<Longrightarrow>
   P (fst (executeLoop lc cfg w n s))"
proof (induction lc cfg w n s rule: executeLoop.induct)
  case (1 lc cfg w iteration s)
  show ?case
  proof (cases "\<not> isTaskComplete s \<and> int iteration < maxIterations cfg")
    case True
    have "P (run_iteration lc cfg (w (Suc iteration)) (Suc iteration) s)"
      using "1.prems" by blast
    then show ?thesis
      using True "1.IH" [OF True "1.prems"(1)] by (subst executeLoop.simps) simp
  next
    case False
    then show ?thesis using "1.prems" by (subst executeLoop.simps) auto
  qed
qed

lemma executeLoop_bound:
  "n \<le> nat (maxIterations cfg) \<Longrightarrow>
   snd (executeLoop lc cfg w n s) \<le> nat (maxIterations cfg)
   \<and> (\<not> isTaskComplete (fst (executeLoop lc cfg w n s)) \<longrightarrow>
        snd (executeLoop lc cfg w n s) = nat (maxIterations cfg))"
proof (induction lc cfg w n s rule: executeLoop.induct)
  case (1 lc cfg w iteration s)
  show ?case
  proof (cases "\<not> isTaskComplete s \<and> int iteration < maxIterations cfg")
    case True
    then have "Suc iteration \<le> nat (maxIterations cfg)" by linarith
    from "1.IH" [OF True this] show ?thesis
      using True by (subst (1 2 3) executeLoop.simps) simp
  next
    case False
    then show ?thesis using "1.prems" by (subst (1 2 3) executeLoop.simps) auto
  qed
qed

lemma dispatch_same_flag:
  "tc_name tc \<noteq> asc ''complete_task'' \<Longrightarrow>
   isTaskComplete (dispatch w cfg i tc args s) = isTaskComplete s"
  using executeTool_same_flag [of "tc_name tc" w cfg s args]
  by (cases "executeTool w cfg s (tc_name tc) args") (simp add: dispatch_def push_def Let_def)

lemma confirmAction_same_flag:
  "isTaskComplete (snd (confirmAction lc w s n args)) = isTaskComplete s"
  by (simp add: confirmAction_def Let_def split: outcome.splits)

lemma process_tool_call_same_flag:
  assumes "tc_name tc \<noteq> asc ''complete_task''"
  shows "isTaskComplete (snd (process_tool_call lc cfg w i tc s)) = isTaskComplete s"
proof (cases "tc_arguments tc")
  case (ArgsInvalid e)
  then show ?thesis by (simp add: process_tool_call_def)
next
  case (Args args)
  obtain r s1 where c: "confirmAction lc w s (tc_name tc) args = (r, s1)"
    by (cases "confirmAction lc w s (tc_name tc) args")
  have s1: "isTaskComplete s1 = isTaskComplete s"
    using confirmAction_same_flag [of lc w s "tc_name tc" args] c by simp
  show ?thesis
    using Args c s1 dispatch_same_flag [OF assms]
    by (simp add: process_tool_call_def push_def split: outcome.splits bool.splits)
qed

lemma process_tool_calls_same_flag:
  "\<forall>tc\<in>set tcs. tc_name tc \<noteq> asc ''complete_task'' \<Longrightarrow>
   isTaskComplete (snd (process_tool_calls lc cfg cw i k tcs s)) = isTaskComplete s"
proof (induction tcs arbitrary: s k)
  case Nil
  then show ?case by simp
next
  case (Cons tc tcs)
  obtain r s1 where p: "process_tool_call lc cfg (cw k) i tc s = (r, s1)"
    by (cases "process_tool_call lc cfg (cw k) i tc s")
  have a: "isTaskComplete s1 = isTaskComplete s"
    using process_tool_call_same_flag [of tc lc cfg "cw k" i s] p Cons.prems by simp
  show ?case
  proof (cases r)
    case (Throws e)
    then show ?thesis using a p by simp
  next
    case (Returns u)
    have "isTaskComplete (snd (process_tool_calls lc cfg cw i (Suc k) tcs s1)) = isTaskComplete s1"
      using Cons.prems by (intro Cons.IH) simp
    then show ?thesis using a p Returns by simp
  qed
qed

lemma run_iteration_same_flag:
  assumes "\<forall>content calls. w_llm iw = Message content calls \<longrightarrow>
             (\<forall>tc\<in>set calls. tc_name tc \<noteq> asc ''complete_task'')"
  shows "isTaskComplete (run_iteration lc cfg iw i s) = isTaskComplete s"
proof -
  have t: "isTaskComplete (snd (try_block lc cfg iw i s)) = isTaskComplete s"
  proof (cases "w_llm iw")
    case (Message content calls)
    then have "\<forall>tc\<in>set calls. tc_name tc \<noteq> asc ''complete_task''" using assms by blast
    from process_tool_calls_same_flag [OF this] show ?thesis
      using Message by (simp add: try_block_def Let_def push_def)
  qed (simp_all add: try_block_def)
  obtain r s1 where e: "try_block lc cfg iw i s = (r, s1)" by (cases "try_block lc cfg iw i s")
  show ?thesis using t e by (cases r) (simp_all add: run_iteration_def push_def)
qed

lemma executeTask_unfold:
  "executeTask lc cfg w task s =
     (let s3 = (if showPlanVisualization cfg
                then (push (UserMsg task) s)
                       \<lparr>currentPlan := Some \<lparr>goal = task, steps = [], currentStepIndex = 0,
                                              adaptations = [], completionCriteria = []\<rparr>,
                         visualizerPlan := Some \<lparr>goal = task, steps = [], currentStepIndex = 0,
                                              adaptations = [], completionCriteria = []\<rparr>\<rparr>
                else push (UserMsg task) s)\<lparr>isTaskComplete := False, confirmedActions := {}\<rparr>
      in \<lparr>final = fst (executeLoop lc cfg w 0 s3), iterations = snd (executeLoop lc cfg w 0 s3),
          outcome = (if \<not> isTaskComplete (fst (executeLoop lc cfg w 0 s3))
                     then ReachedMaximumIterations else TaskCompleted)\<rparr>)"
  by (simp add: executeTask_def task_start_def Let_def split: prod.splits)

lemma executeLoop_runs:
  "s = run_iterations lc cfg w n s0 \<Longrightarrow>
   fst (executeLoop lc cfg w n s) = run_iterations lc cfg w (snd (executeLoop lc cfg w n s)) s0
   \<and> n \<le> snd (executeLoop lc cfg w n s)
   \<and> (\<forall>k. n \<le> k \<and> k < snd (executeLoop lc cfg w n s) \<longrightarrow>
          \<not> isTaskComplete (run_iterations lc cfg w k s0))"
proof (induction lc cfg w n s rule: executeLoop.induct)
  case (1 lc cfg w iteration s)
  show ?case
  proof (cases "\<not> isTaskComplete s \<and> int iteration < maxIterations cfg")
    case True
    define s' where "s' = run_iteration lc cfg (w (Suc iteration)) (Suc iteration) s"
    have e: "executeLoop lc cfg w iteration s = executeLoop lc cfg w (Suc iteration) s'"
      using True by (subst executeLoop.simps) (simp add: s'_def)
    have "s' = run_iterations lc cfg w (Suc iteration) s0" using "1.prems" by (simp add: s'_def)
    from "1.IH" [OF True this [unfolded s'_def]]
    have ih: "fst (executeLoop lc cfg w (Suc iteration) s') =
          run_iterations lc cfg w (snd (executeLoop lc cfg w (Suc iteration) s')) s0"
        "Suc iteration \<le> snd (executeLoop lc cfg w (Suc iteration) s')"
        "\<forall>k. Suc iteration \<le> k \<and> k < snd (executeLoop lc cfg w (Suc iteration) s') \<longrightarrow>
          \<not> isTaskComplete (run_iterations lc cfg w k s0)"
      by (simp_all add: s'_def)
    have here: "\<not> isTaskComplete (run_iterations lc cfg w iteration s0)"
      using True "1.prems" by simp
    have "\<not> isTaskComplete (run_iterations lc cfg w k s0)"
      if "iteration \<le> k" "k < snd (executeLoop lc cfg w (Suc iteration) s')" for k
    proof (cases "k = iteration")
      case True
      then show ?thesis using here by simp
    next
      case False
      then have "Suc iteration \<le> k" using that(1) by simp
      then show ?thesis using ih(3) that(2) by blast
    qed
    then show ?thesis using ih(1,2) by (simp add: e)
  next
    case False
    then have "executeLoop lc cfg w iteration s = (s, iteration)"
      by (subst executeLoop.simps) auto
    then show ?thesis using "1.prems" by auto
  qed
qed

lemma task_start_fields:
  "events (task_start cfg task s) = events s"
  "\<not> isTaskComplete (task_start cfg task s)"
  "browserManager (task_start cfg task s) = browserManager s"
  "conversationHistory (task_start cfg task s) = conversationHistory s @ [UserMsg task]"
  by (simp_all add: task_start_def push_def Let_def)

lemma executeTask_runs:
  "final (executeTask lc cfg w task s) =
     run_iterations lc cfg w (iterations (executeTask lc cfg w task s)) (task_start cfg task s)
   \<and> (\<forall>k<iterations (executeTask lc cfg w task s).
          \<not> isTaskComplete (run_iterations lc cfg w k (task_start cfg task s)))
   \<and> iterations (executeTask lc cfg w task s) \<le> nat (maxIterations cfg)
   \<and> (\<not> isTaskComplete (final (executeTask lc cfg w task s)) \<longrightarrow>
        iterations (executeTask lc cfg w task s) = nat (maxIterations cfg))
   \<and> outcome (executeTask lc cfg w task s) =
       (if \<not> isTaskComplete (final (executeTask lc cfg w task s))
        then ReachedMaximumIterations else TaskCompleted)"
proof -
  define s3 where "s3 = task_start cfg task s"
  have e: "executeTask lc cfg w task s =
      \<lparr>final = fst (executeLoop lc cfg w 0 s3), iterations = snd (executeLoop lc cfg w 0 s3),
       outcome = (if \<not> isTaskComplete (fst (executeLoop lc cfg w 0 s3))
                  then ReachedMaximumIterations else TaskCompleted)\<rparr>"
    by (simp add: executeTask_def s3_def split: prod.splits)
  have r: "fst (executeLoop lc cfg w 0 s3) =
        run_iterations lc cfg w (snd (executeLoop lc cfg w 0 s3)) s3
     \<and> 0 \<le> snd (executeLoop lc cfg w 0 s3)
     \<and> (\<forall>k. 0 \<le> k \<and> k < snd (executeLoop lc cfg w 0 s3) \<longrightarrow>
          \<not> isTaskComplete (run_iterations lc cfg w k s3))"
    by (rule executeLoop_runs) simp
  have b: "snd (executeLoop lc cfg w 0 s3) \<le> nat (maxIterations cfg)
     \<and> (\<not> isTaskComplete (fst (executeLoop lc cfg w 0 s3)) \<longrightarrow>
          snd (executeLoop lc cfg w 0 s3) = nat (maxIterations cfg))"
    by (rule executeLoop_bound) simp
  show ?thesis
    unfolding s3_def [symmetric] using r b by (simp add: e)
qed

lemma run_iteration_grows:
  "Suc (length (conversationHistory s))
     \<le> length (conversationHistory (run_iteration lc cfg w i s))"
proof (cases "w_llm w")
  case (Message content calls)
  define s1 where "s1 = push (AssistantMsg content calls) s"
  have l1: "length (conversationHistory s1) = Suc (length (conversationHistory s))"
    by (simp add: s1_def push_def)
  show ?thesis
  proof (cases "calls = []")
    case True
    then show ?thesis using Message by (simp add: run_iteration_def try_block_def push_def Let_def)
  next
    case False
    obtain r s2 where p: "process_tool_calls lc cfg (w_calls w) i 0 calls s1 = (r, s2)"
      by (cases "process_tool_calls lc cfg (w_calls w) i 0 calls s1")
    have "prefix (conversationHistory s1) (conversationHistory s2)"
      using process_tool_calls_conversation [of s1 lc cfg "w_calls w" i 0 calls] p by simp
    then have l2: "length (conversationHistory s1) \<le> length (conversationHistory s2)"
      by (rule prefix_length_le)
    have t: "try_block lc cfg w i s = (r, s2)"
      using Message False p by (simp add: try_block_def Let_def s1_def)
    show ?thesis
      using l1 l2 by (cases r) (simp_all add: run_iteration_def t push_def)
  qed
qed (simp_all add: run_iteration_def try_block_def push_def)

lemma run_iterations_grows:
  "length (conversationHistory s) + n
     \<le> length (conversationHistory (run_iterations lc cfg w n s))"
proof (induction n)
  case 0
  then show ?case by simp
next
  case (Suc n)
  have "Suc (length (conversationHistory (run_iterations lc cfg w n s)))
     \<le> length (conversationHistory (run_iterations lc cfg w (Suc n) s))"
    using run_iteration_grows by simp
  then show ?case using Suc by simp
qed

text \<open>
  Claim C5. Whatever the goal and the model's decisions, the agent a task ends with is
  the agent at the start of the loop after exactly \<open>iterations\<close> runs of the loop body,
  none of which began with the completion flag set; each of them appends to the
  conversation; and their number is at most \<open>maxIterations\<close> (none for a negative
  \<open>maxIterations\<close>). The flag is set only when \<^verbatim>\<open>complete_task\<close> is dispatched: when
  it is never dispatched during the task, the loop runs exactly \<open>maxIterations\<close>
  iterations and the task ends with the outcome "reached maximum iterations", a value
  that \<open>executeTask\<close> returns, not an exception. The constructor's default for
  \<open>maxIterations\<close> is 50.
\<close>

theorem loop_stops_at_iteration_cap:
  "final (executeTask lc cfg w task s) =
     run_iterations lc cfg w (iterations (executeTask lc cfg w task s)) (task_start cfg task s)
   \<and> (\<forall>k<iterations (executeTask lc cfg w task s).
          \<not> isTaskComplete (run_iterations lc cfg w k (task_start cfg task s)))
   \<and> length (conversationHistory (task_start cfg task s)) + iterations (executeTask lc cfg w task s)
        \<le> length (conversationHistory (final (executeTask lc cfg w task s)))
   \<and> int (iterations (executeTask lc cfg w task s)) \<le> max 0 (maxIterations cfg)
   \<and> (\<not> isTaskComplete (final (executeTask lc cfg w task s)) \<longrightarrow>
         int (iterations (executeTask lc cfg w task s)) = max 0 (maxIterations cfg)
         \<and> outcome (executeTask lc cfg w task s) = ReachedMaximumIterations)
   \<and> (isTaskComplete (final (executeTask lc cfg w task s)) \<longrightarrow>
         outcome (executeTask lc cfg w task s) = TaskCompleted
         \<and> asc ''complete_task''
             \<in> set (dispatched_names (task_events s (final (executeTask lc cfg w task s)))))
   \<and> (asc ''complete_task''
         \<notin> set (dispatched_names (task_events s (final (executeTask lc cfg w task s)))) \<longrightarrow>
         int (iterations (executeTask lc cfg w task s)) = max 0 (maxIterations cfg)
         \<and> \<not> isTaskComplete (final (executeTask lc cfg w task s))
         \<and> outcome (executeTask lc cfg w task s) = ReachedMaximumIterations)
   \<and> maxIterations (BrowserAgent_config (c\<lparr>cfg_maxIterations := None\<rparr>)) = 50"
proof -
  define r where "r = executeTask lc cfg w task s"
  define s3 where "s3 = task_start cfg task s"
  define fin where "fin = isTaskComplete (final r)"
  define named where
    "named = (asc ''complete_task'' \<in> set (dispatched_names (task_events s (final r))))"
  note runs = executeTask_runs [of lc cfg w task s, folded r_def s3_def, folded fin_def]
  have c1: "final r = run_iterations lc cfg w (iterations r) s3" using runs by blast
  have c2: "\<forall>k<iterations r. \<not> isTaskComplete (run_iterations lc cfg w k s3)"
    using runs by blast
  have c3: "length (conversationHistory s3) + iterations r
        \<le> length (conversationHistory (final r))"
    using run_iterations_grows [of s3 "iterations r" lc cfg w] by (simp add: c1 [symmetric])
  have b: "iterations r \<le> nat (maxIterations cfg)" using runs by blast
  have c4: "int (iterations r) \<le> max 0 (maxIterations cfg)" using b by linarith
  have q: "\<not> fin \<longrightarrow> iterations r = nat (maxIterations cfg)" using runs by blast
  have c5: "\<not> fin \<longrightarrow> int (iterations r) = max 0 (maxIterations cfg)" using q by auto
  have o: "outcome r = (if \<not> fin then ReachedMaximumIterations else TaskCompleted)"
    using runs by blast
  have o1: "\<not> fin \<longrightarrow> outcome r = ReachedMaximumIterations" using o by simp
  have o2: "fin \<longrightarrow> outcome r = TaskCompleted" using o by simp
  have "advances s3 (final r)"
    using run_iterations_advances [of s3 lc cfg w "iterations r"] by (simp add: c1 [symmetric])
  then have c6: "fin \<longrightarrow> named"
    by (simp add: advances_def task_events_def s3_def task_start_fields fin_def named_def)
  have d: "maxIterations (BrowserAgent_config (c\<lparr>cfg_maxIterations := None\<rparr>)) = 50"
    by (simp add: BrowserAgent_config_def)
  show ?thesis
    unfolding r_def [symmetric] s3_def [symmetric] fin_def [symmetric] named_def [symmetric]
    using c1 c2 c3 c4 c5 o1 o2 c6 d by blast
qed

theorem loop_stops_at_iteration_cap_witness:
  "asc ''complete_task''
     \<notin> set (dispatched_names (task_events started_agent
          (final (executeTask ascii_lower default_config browsing_model (asc ''Find the price'')
             started_agent))))
   \<and> maxIterations default_config = 50
   \<and> iterations (executeTask ascii_lower default_config browsing_model (asc ''Find the price'')
         started_agent) = 50
   \<and> outcome (executeTask ascii_lower default_config browsing_model (asc ''Find the price'')
         started_agent) = ReachedMaximumIterations
   \<and> final (executeTask ascii_lower default_config browsing_model (asc ''Find the price'')
         started_agent) =
       run_iterations ascii_lower default_config browsing_model 50
         (task_start default_config (asc ''Find the price'') started_agent)
   \<and> \<not> isTaskComplete (run_iterations ascii_lower default_config browsing_model 49
         (task_start default_config (asc ''Find the price'') started_agent))"
proof -
  define r where
    "r = executeTask ascii_lower default_config browsing_model (asc ''Find the price'') started_agent"
  define s3 where "s3 = task_start default_config (asc ''Find the price'') started_agent"
  have h: "asc ''complete_task'' \<notin> set (dispatched_names (task_events started_agent (final r)))"
    unfolding r_def by code_simp
  have m: "maxIterations default_config = 50" by code_simp
  note t = loop_stops_at_iteration_cap [of ascii_lower default_config browsing_model
      "asc ''Find the price''" started_agent, folded r_def s3_def]
  have "int (iterations r) = max 0 (maxIterations default_config)
      \<and> outcome r = ReachedMaximumIterations"
    using h t by blast
  then have n: "int (iterations r) = 50" and o: "outcome r = ReachedMaximumIterations"
    by (simp_all add: m)
  have i: "iterations r = 50" using n by simp
  have "final r = run_iterations ascii_lower default_config browsing_model (iterations r) s3"
    using t by blast
  then have f: "final r = run_iterations ascii_lower default_config browsing_model 50 s3"
    by (simp only: i)
  have "\<forall>k<iterations r. \<not> isTaskComplete (run_iterations ascii_lower default_config browsing_model k s3)"
    using t by blast
  moreover have "(49::nat) < iterations r" by (simp add: i)
  ultimately have k: "\<not> isTaskComplete (run_iterations ascii_lower default_config browsing_model 49 s3)"
    by blast
  show ?thesis
    unfolding r_def [symmetric] s3_def [symmetric] using h m i o f k by blast
qed




lemma only_logs_push: "only_logs s (push m s)"
  by (simp add: only_logs_def push_def)


















section \<open>Properties of the confirmation gate\<close>

lemma no_reprompt_snoc:
  "no_reprompt (ps @ [q]) =
     (no_reprompt ps \<and> (\<forall>p\<in>set ps. p_approved p \<longrightarrow> prompt_key q \<noteq> prompt_key p))"
  by (induction ps) auto

lemma no_reprompt_later:
  "no_reprompt (ps1 @ p # ps2) \<Longrightarrow> p_approved p \<Longrightarrow> \<forall>q\<in>set ps2. prompt_key q \<noteq> prompt_key p"
  by (induction ps1) auto

lemma no_reprompt_count:
  "no_reprompt ps \<Longrightarrow> length (filter (\<lambda>p. prompt_key p = k \<and> p_approved p) ps) \<le> 1"
proof (induction ps)
  case Nil
  then show ?case by simp
next
  case (Cons p ps)
  show ?case
  proof (cases "prompt_key p = k \<and> p_approved p")
    case True
    then have "\<forall>q\<in>set ps. prompt_key q \<noteq> k" using Cons.prems by auto
    then have "filter (\<lambda>p. prompt_key p = k \<and> p_approved p) ps = []"
      by (auto simp: filter_empty_conv)
    then show ?thesis using True by simp
  next
    case False
    then show ?thesis using Cons by auto
  qed
qed

lemma triple_key: "prompt_triple p = prompt_triple q \<Longrightarrow> prompt_key p = prompt_key q"
  by (simp add: prompt_triple_def prompt_key_def)

lemma gate_invariant_cong:
  "prompts s' = prompts s \<Longrightarrow> confirmedActions s' = confirmedActions s \<Longrightarrow>
   gate_invariant m s' = gate_invariant m s"
  by (simp add: gate_invariant_def)

lemma confirmAction_gate:
  assumes "shouldConfirm lc w s n args = Returns True"
    and "gate_invariant m s"
  shows "gate_invariant m (snd (confirmAction lc w s n args))"
proof -
  obtain pg where pg: "getCurrentPage (browserManager s) = Returns pg"
    using assms(1) by (cases "getCurrentPage (browserManager s)") (simp_all add: shouldConfirm_def)
  define ctx where "ctx = build_context w s pg n args"
  define a where "a = assessAction lc ctx"
  define k where "k = actionKey n (key_text ctx) (category a)"
  define q where "q = \<lparr>p_tool = n, p_text = key_text ctx, p_category = category a,
                        p_message = generateConfirmationMessage a ctx,
                        p_approved = w_confirmed w\<rparr>"
  have fresh: "k \<notin> confirmedActions s"
    using assms(1) pg
    by (auto simp: shouldConfirm_def Let_def ctx_def a_def k_def split: if_splits)
  have qk: "prompt_key q = k" by (simp add: prompt_key_def q_def k_def)
  have m: "m \<le> length (prompts s)" using assms(2) by (simp add: gate_invariant_def)
  have old: "\<forall>p\<in>set (drop m (prompts s)). p_approved p \<longrightarrow> prompt_key p \<in> confirmedActions s"
    using assms(2) by (simp add: gate_invariant_def)
  have nr: "no_reprompt (drop m (prompts s))" using assms(2) by (simp add: gate_invariant_def)
  have nr': "no_reprompt (drop m (prompts s) @ [q])"
    using nr old fresh qk by (auto simp: no_reprompt_snoc)
  show ?thesis
  proof (cases "w_confirmed w")
    case True
    have "snd (confirmAction lc w s n args) =
            s\<lparr>prompts := prompts s @ [q], confirmedActions := insert k (confirmedActions s)\<rparr>"
      using pg True
      by (simp add: confirmAction_def Let_def ctx_def a_def k_def q_def)
    then show ?thesis
      using m old nr' qk by (auto simp: gate_invariant_def)
  next
    case False
    have "snd (confirmAction lc w s n args) = s\<lparr>prompts := prompts s @ [q]\<rparr>"
      using pg False
      by (simp add: confirmAction_def Let_def ctx_def a_def k_def q_def)
    then show ?thesis
      using m old nr' qk False by (auto simp: gate_invariant_def q_def)
  qed
qed

lemma dispatch_gate:
  "gate_invariant m (dispatch w cfg i tc args s) = gate_invariant m s"
proof (rule gate_invariant_cong)
  obtain r s1 where e: "executeTool w cfg s (tc_name tc) args = (r, s1)"
    by (cases "executeTool w cfg s (tc_name tc) args")
  have k: "keeps_logs s s1" using executeTool_keeps_logs [of s w cfg "tc_name tc" args] e by simp
  show "prompts (dispatch w cfg i tc args s) = prompts s"
    using k e by (simp add: dispatch_def push_def Let_def keeps_logs_def)
  show "confirmedActions (dispatch w cfg i tc args s) = confirmedActions s"
    using k e by (simp add: dispatch_def push_def Let_def keeps_logs_def)
qed

lemma push_gate: "gate_invariant m (push x s) = gate_invariant m s"
  by (simp add: gate_invariant_def push_def)

lemma process_tool_call_gate:
  assumes "gate_invariant m s"
  shows "gate_invariant m (snd (process_tool_call lc cfg w i tc s))"
proof (cases "tc_arguments tc")
  case (ArgsInvalid e)
  then show ?thesis using assms by (simp add: process_tool_call_def)
next
  case (Args args)
  show ?thesis
  proof (cases "requireConfirmation cfg \<and> shouldConfirm lc w s (tc_name tc) args = Returns True")
    case True
    obtain r s1 where c: "confirmAction lc w s (tc_name tc) args = (r, s1)"
      by (cases "confirmAction lc w s (tc_name tc) args")
    have "gate_invariant m s1"
      using confirmAction_gate [of lc w s "tc_name tc" args m] True assms c by simp
    then show ?thesis
      using Args True c
      by (simp add: process_tool_call_def dispatch_gate push_gate split: outcome.splits bool.splits)
  next
    case False
    then show ?thesis
      using Args assms
      by (auto simp: process_tool_call_def dispatch_gate split: outcome.splits bool.splits)
  qed
qed

lemma process_tool_calls_gate:
  "gate_invariant m s \<Longrightarrow> gate_invariant m (snd (process_tool_calls lc cfg cw i k tcs s))"
proof (induction tcs arbitrary: s k)
  case Nil
  then show ?case by simp
next
  case (Cons tc tcs)
  obtain r s1 where p: "process_tool_call lc cfg (cw k) i tc s = (r, s1)"
    by (cases "process_tool_call lc cfg (cw k) i tc s")
  have a: "gate_invariant m s1"
    using process_tool_call_gate [OF Cons.prems, of lc cfg "cw k" i tc] p by simp
  show ?case
  proof (cases r)
    case (Throws e)
    then show ?thesis using a p by simp
  next
    case (Returns u)
    from Cons.IH [OF a, of "Suc k"] show ?thesis using p Returns by simp
  qed
qed

lemma run_iteration_gate:
  assumes "gate_invariant m s"
  shows "gate_invariant m (run_iteration lc cfg iw i s)"
proof -
  have t: "gate_invariant m (snd (try_block lc cfg iw i s))"
  proof (cases "w_llm iw")
    case (Message content calls)
    have "gate_invariant m (push (AssistantMsg content calls) s)"
      using assms by (simp add: push_gate)
    from process_tool_calls_gate [OF this, of lc cfg "w_calls iw" i 0 calls] show ?thesis
      using Message assms by (simp add: try_block_def Let_def push_gate)
  qed (simp_all add: try_block_def assms)
  obtain r s1 where b: "try_block lc cfg iw i s = (r, s1)" by (cases "try_block lc cfg iw i s")
  show ?thesis using t b by (cases r) (simp_all add: run_iteration_def push_gate)
qed

lemma executeTask_gate:
  "gate_invariant (length (prompts s)) (final (executeTask lc cfg w task s))"
proof -
  define s3 where "s3 = (if showPlanVisualization cfg
                then (push (UserMsg task) s)
                       \<lparr>currentPlan := Some \<lparr>goal = task, steps = [], currentStepIndex = 0,
                                              adaptations = [], completionCriteria = []\<rparr>,
                         visualizerPlan := Some \<lparr>goal = task, steps = [], currentStepIndex = 0,
                                              adaptations = [], completionCriteria = []\<rparr>\<rparr>
                else push (UserMsg task) s)\<lparr>isTaskComplete := False, confirmedActions := {}\<rparr>"
  have e: "final (executeTask lc cfg w task s) = fst (executeLoop lc cfg w 0 s3)"
    by (simp add: executeTask_unfold s3_def Let_def)
  have i: "gate_invariant (length (prompts s)) s3"
    by (simp add: gate_invariant_def s3_def push_def)
  have "gate_invariant (length (prompts s)) (fst (executeLoop lc cfg w 0 s3))"
  proof (rule executeLoop_invariant [where P = "gate_invariant (length (prompts s))"])
    show "\<forall>i s'. gate_invariant (length (prompts s)) s' \<longrightarrow>
            gate_invariant (length (prompts s)) (run_iteration lc cfg (w i) i s')"
      using run_iteration_gate by blast
    show "gate_invariant (length (prompts s)) s3" by (rule i)
  qed
  then show ?thesis by (simp add: e)
qed

text \<open>
  Claim C2, amended. \<open>task_prompts s s'\<close> are the confirmation prompts shown between the
  start \<open>s\<close> of a task and its end \<open>s'\<close>. Within one task, once the user has approved
  a prompt for an (operation, element text, category) triple, no later prompt of the task
  is for that triple; so every triple has at most one approved prompt. A prompt that was
  denied records nothing, and the theorem says nothing about how often a denied triple is
  asked again.
\<close>

theorem approved_triple_not_prompted_again:
  "(\<forall>before p after.
      task_prompts s (final (executeTask lc cfg w task s)) = before @ p # after \<longrightarrow>
      p_approved p \<longrightarrow> (\<forall>q\<in>set after. prompt_triple q \<noteq> prompt_triple p))
   \<and> (\<forall>tr. length (filter (\<lambda>p. prompt_triple p = tr \<and> p_approved p)
                  (task_prompts s (final (executeTask lc cfg w task s)))) \<le> 1)"
proof -
  define ps where "ps = task_prompts s (final (executeTask lc cfg w task s))"
  have nr: "no_reprompt ps"
    using executeTask_gate [of s lc cfg w task] by (simp add: gate_invariant_def ps_def task_prompts_def)
  have a: "\<forall>before p after. ps = before @ p # after \<longrightarrow> p_approved p \<longrightarrow>
      (\<forall>q\<in>set after. prompt_triple q \<noteq> prompt_triple p)"
  proof (intro allI impI ballI)
    fix before p after q
    assume e: "ps = before @ p # after" and ap: "p_approved p" and q: "q \<in> set after"
    have "\<forall>q\<in>set after. prompt_key q \<noteq> prompt_key p"
      using nr e ap no_reprompt_later by blast
    then show "prompt_triple q \<noteq> prompt_triple p" using q triple_key by blast
  qed
  have b: "\<forall>tr. length (filter (\<lambda>p. prompt_triple p = tr \<and> p_approved p) ps) \<le> 1"
  proof
    fix tr :: "jsstring \<times> jsstring \<times> category option"
    obtain n t c where tr: "tr = (n, t, c)" by (cases tr)
    have sub: "filter (\<lambda>p. prompt_triple p = tr \<and> p_approved p) ps =
        filter (\<lambda>p. prompt_triple p = tr)
          (filter (\<lambda>p. prompt_key p = actionKey n t c \<and> p_approved p) ps)"
      by (auto simp: tr prompt_triple_def prompt_key_def intro: filter_cong)
    have "length (filter (\<lambda>p. prompt_key p = actionKey n t c \<and> p_approved p) ps) \<le> 1"
      using nr by (rule no_reprompt_count)
    then show "length (filter (\<lambda>p. prompt_triple p = tr \<and> p_approved p) ps) \<le> 1"
      unfolding sub using length_filter_le le_trans by blast
  qed
  show ?thesis using a b by (simp add: ps_def)
qed

theorem approved_triple_not_prompted_again_witness:
  "approved_run = [] @ (approved_run ! 0) # [approved_run ! 1]
   \<and> p_approved (approved_run ! 0)
   \<and> map prompt_triple approved_run =
       [(asc ''click'', asc ''Delete'', Some DataLoss), (asc ''click'', asc ''Pay now'', Some Financial)]
   \<and> prompt_triple (approved_run ! 1) \<noteq> prompt_triple (approved_run ! 0)"
proof -
  have h1: "approved_run = [] @ (approved_run ! 0) # [approved_run ! 1]" by code_simp
  have h2: "p_approved (approved_run ! 0)" by code_simp
  have h3: "map prompt_triple approved_run =
       [(asc ''click'', asc ''Delete'', Some DataLoss), (asc ''click'', asc ''Pay now'', Some Financial)]"
    by code_simp
  have "\<forall>before p after.
      approved_run = before @ p # after \<longrightarrow>
      p_approved p \<longrightarrow> (\<forall>q\<in>set after. prompt_triple q \<noteq> prompt_triple p)"
    using approved_triple_not_prompted_again
      [of agent_with_two_buttons ascii_lower two_iterations approving_two "asc ''Delete it and pay''"]
    unfolding approved_run_def by blast
  then have "\<forall>q\<in>set [approved_run ! 1]. prompt_triple q \<noteq> prompt_triple (approved_run ! 0)"
    using h1 h2 by blast
  then have "prompt_triple (approved_run ! 1) \<noteq> prompt_triple (approved_run ! 0)" by simp
  then show ?thesis using h1 h2 h3 by blast
qed

text \<open>
  A triple is prompted more than once when the user denies it: the model asks twice for a
  click on the same \<^verbatim>\<open>Delete\<close> button, the user answers no both times, and the task
  shows two prompts for the same triple.
\<close>

theorem denied_triple_is_prompted_twice:
  "map prompt_triple denied_run =
     [(asc ''click'', asc ''Delete'', Some DataLoss), (asc ''click'', asc ''Delete'', Some DataLoss)]
   \<and> map p_approved denied_run = [False, False]
   \<and> count_list (map prompt_triple denied_run) (asc ''click'', asc ''Delete'', Some DataLoss) = 2"
  by code_simp

end
